theory Spec2Isabelle
  imports Complex_Main "HOL-Library.Word"
begin

section \<open>JavaScript values used by the voice-transform pipeline\<close>

text \<open>
  The pipeline lives in \<^verbatim>\<open>profile-script.js\<close> (\<^verbatim>\<open>transformAudio\<close>,
  \<^verbatim>\<open>audioBufferToWav\<close>, \<^verbatim>\<open>voicePresets\<close>); the same three declarations appear a second
  time, with comments, in another script of the repository. The two copies are statement for
  statement the same code, so one embedding covers them.

  A JavaScript number is an IEEE double: a finite value, one of the two infinities, or NaN.
  A finite value is modelled as the real it denotes. An arithmetic operator computes the exact
  result, turns it into an infinity when its magnitude reaches the overflow threshold of the
  format (\<open>dbl\<close>), and rounds it to the nearest double, ties to even (\<open>rounded\<close>). Signed
  zero is not modelled.

  The products of the encoder need no rounding: a \<^verbatim>\<open>Float32Array\<close> element has a 24-bit
  significand, and its product with \<^verbatim>\<open>0x7FFF\<close> or \<^verbatim>\<open>0x8000\<close> needs at most 39 bits, so the
  double product is the real product, and \<open>js_mul\<close> alone is the operator there. The
  arithmetic of \<^verbatim>\<open>transformAudio\<close> on durations is not exact; there every operator is followed
  by \<open>rounded\<close>.
\<close>

datatype js_number = Num real | PosInf | NegInf | NaN

datatype js_error = RangeError | NotSupportedError | TypeError

text \<open>
  Round-to-nearest sends a real of magnitude \<open>2 ^ 1024 - 2 ^ 970\<close> or more to an infinity of
  the double format, and one of magnitude \<open>2 ^ 128 - 2 ^ 103\<close> or more to an infinity of the
  single format.
\<close>

definition double_overflow :: real where
  "double_overflow = 2 ^ 1024 - 2 ^ 970"

definition float_overflow :: real where
  "float_overflow = 2 ^ 128 - 2 ^ 103"

definition dbl :: "real \<Rightarrow> js_number" where
  "dbl r =
     (if double_overflow \<le> r then PosInf
      else if r \<le> - double_overflow then NegInf
      else Num r)"

text \<open>
  Rounding to the nearest double. The doubles around \<open>x\<close> are the integer multiples of
  \<open>ulp x\<close>, which is \<open>2\<close> to the power of the binary exponent of \<open>x\<close> (at least
  \<open>-1022\<close>, where the subnormal numbers begin) minus the 52 fraction bits of the format;
  \<open>x\<close> goes to the nearest multiple, and to the even one when it is halfway between two.
\<close>

definition ulp :: "real \<Rightarrow> real" where
  "ulp x = 2 powr real_of_int (max \<lfloor>log 2 \<bar>x\<bar>\<rfloor> (- 1022) - 52)"

definition round_half_even :: "real \<Rightarrow> int" where
  "round_half_even y =
     (let n = \<lfloor>y\<rfloor>
      in if y - of_int n < 1 / 2 then n
         else if 1 / 2 < y - of_int n then n + 1
         else if even n then n else n + 1)"

definition round_double :: "real \<Rightarrow> real" where
  "round_double x = of_int (round_half_even (x / ulp x)) * ulp x"

fun rounded :: "js_number \<Rightarrow> js_number" where
  "rounded (Num r) = Num (round_double r)"
| "rounded x = x"

text \<open>
  The values of a \<^verbatim>\<open>Float32Array\<close>: a significand of at most 24 bits times a power of two,
  the exponent not below that of the smallest subnormal number.
\<close>

definition single_precision :: "real \<Rightarrow> bool" where
  "single_precision x \<longleftrightarrow> (\<exists>m e. x = of_int m * 2 powr of_int e \<and> \<bar>m\<bar> < 2 ^ 24 \<and> - 149 \<le> e)"

type_synonym byte = "8 word"

text \<open>\<^verbatim>\<open>Math.min\<close> and \<^verbatim>\<open>Math.max\<close>: NaN if either argument is NaN.\<close>

fun Math_min :: "js_number \<Rightarrow> js_number \<Rightarrow> js_number" where
  "Math_min NaN y = NaN"
| "Math_min x NaN = NaN"
| "Math_min NegInf y = NegInf"
| "Math_min x NegInf = NegInf"
| "Math_min PosInf y = y"
| "Math_min x PosInf = x"
| "Math_min (Num a) (Num b) = Num (min a b)"

fun Math_max :: "js_number \<Rightarrow> js_number \<Rightarrow> js_number" where
  "Math_max NaN y = NaN"
| "Math_max x NaN = NaN"
| "Math_max PosInf y = PosInf"
| "Math_max x PosInf = PosInf"
| "Math_max NegInf y = y"
| "Math_max x NegInf = x"
| "Math_max (Num a) (Num b) = Num (max a b)"

text \<open>The relational operator \<^verbatim>\<open><\<close>: false as soon as one side is NaN.\<close>

fun js_less :: "js_number \<Rightarrow> js_number \<Rightarrow> bool" where
  "js_less NaN y = False"
| "js_less x NaN = False"
| "js_less x NegInf = False"
| "js_less NegInf y = True"
| "js_less PosInf y = False"
| "js_less x PosInf = True"
| "js_less (Num a) (Num b) = (a < b)"

text \<open>
  The operators \<^verbatim>\<open>*\<close> and \<^verbatim>\<open>/\<close>, up to the rounding of a finite result: an infinity
  times zero is NaN; a finite number divided by zero is an infinity, or NaN when it is zero
  itself.
\<close>

fun js_sign :: "js_number \<Rightarrow> int" where
  "js_sign (Num a) = (if a < 0 then - 1 else if a = 0 then 0 else 1)"
| "js_sign PosInf = 1"
| "js_sign NegInf = - 1"
| "js_sign NaN = 0"

fun js_mul :: "js_number \<Rightarrow> js_number \<Rightarrow> js_number" where
  "js_mul NaN y = NaN"
| "js_mul x NaN = NaN"
| "js_mul (Num a) (Num b) = dbl (a * b)"
| "js_mul x y =
     (if js_sign x * js_sign y = 0 then NaN
      else if js_sign x * js_sign y > 0 then PosInf else NegInf)"

fun js_div :: "js_number \<Rightarrow> js_number \<Rightarrow> js_number" where
  "js_div NaN y = NaN"
| "js_div x NaN = NaN"
| "js_div (Num a) (Num b) =
     (if b = 0 then (if a = 0 then NaN else if 0 < a then PosInf else NegInf)
      else dbl (a / b))"
| "js_div (Num a) y = Num 0"
| "js_div x (Num b) = (if js_sign x * (if b < 0 then - 1 else 1) > 0 then PosInf else NegInf)"
| "js_div x y = NaN"

text \<open>
  \<^verbatim>\<open>Math.pow(2, y)\<close>, the only use of \<^verbatim>\<open>Math.pow\<close> in the pipeline. The language leaves
  the accuracy of \<^verbatim>\<open>Math.pow\<close> to the implementation; the model takes the power itself.
\<close>

fun Math_pow2 :: "js_number \<Rightarrow> js_number" where
  "Math_pow2 (Num y) = dbl (2 powr y)"
| "Math_pow2 PosInf = PosInf"
| "Math_pow2 NegInf = Num 0"
| "Math_pow2 NaN = NaN"

text \<open>
  The integer part of a finite number, rounding towards zero (the \<^verbatim>\<open>truncate\<close> of the
  language's integer conversions).
\<close>

definition js_trunc :: "real \<Rightarrow> int" where
  "js_trunc r = (if r < 0 then - \<lfloor>- r\<rfloor> else \<lfloor>r\<rfloor>)"

text \<open>
  \<^verbatim>\<open>ToInt16\<close>, as \<^verbatim>\<open>DataView.prototype.setInt16\<close> applies it to its value: NaN and the
  infinities become 0, a finite number is truncated and reduced modulo \<open>2 ^ 16\<close>. The 16-bit
  word holds the reduced value; \<^const>\<open>sint\<close> reads it back as the signed integer.
\<close>

fun ToInt16 :: "js_number \<Rightarrow> 16 word" where
  "ToInt16 (Num r) = word_of_int (js_trunc r)"
| "ToInt16 x = 0"

text \<open>
  The conversion of a number to the interface type \<^verbatim>\<open>unsigned long\<close>, which the platform
  applies to the \<^verbatim>\<open>length\<close> argument of \<^verbatim>\<open>new OfflineAudioContext\<close>: NaN and the infinities
  become 0, a finite number is truncated and reduced modulo \<open>2 ^ 32\<close>.
\<close>

fun ToUint32 :: "js_number \<Rightarrow> nat" where
  "ToUint32 (Num r) = nat (js_trunc r mod 2 ^ 32)"
| "ToUint32 x = 0"

text \<open>Little-endian byte order of a 16-bit and of a 32-bit value.\<close>

definition le16 :: "16 word \<Rightarrow> byte list" where
  "le16 w = [ucast w, ucast (drop_bit 8 w)]"

definition le32 :: "32 word \<Rightarrow> byte list" where
  "le32 w = [ucast w, ucast (drop_bit 8 w), ucast (drop_bit 16 w), ucast (drop_bit 24 w)]"

section \<open>The audio buffer and the encoder's state\<close>

text \<open>
  An \<^verbatim>\<open>AudioBuffer\<close>: its sample rate in Hz, its length in frames, and one
  \<^verbatim>\<open>Float32Array\<close> per channel (\<^verbatim>\<open>getChannelData(i)\<close>). The number of channels is the
  number of these arrays.
\<close>

record AudioBuffer =
  sampleRate :: nat
  length_frames :: nat
  channelData :: "js_number list list"

definition numberOfChannels :: "AudioBuffer \<Rightarrow> nat" where
  "numberOfChannels b = length (channelData b)"

text \<open>
  Reading a typed array past its end gives \<^verbatim>\<open>undefined\<close>, which \<^verbatim>\<open>Math.min\<close> converts
  to NaN.
\<close>

definition typed_get :: "js_number list \<Rightarrow> nat \<Rightarrow> js_number" where
  "typed_get a i = (if i < length a then a ! i else NaN)"

text \<open>
  The mutable variables of \<^verbatim>\<open>audioBufferToWav\<close>: the bytes behind \<^verbatim>\<open>view\<close>, the write
  position \<^verbatim>\<open>pos\<close> and the frame index \<^verbatim>\<open>offset\<close>.
\<close>

record wav_state =
  view :: "byte list"
  pos :: nat
  offset :: nat

definition bind_js :: "js_error + 'a \<Rightarrow> ('a \<Rightarrow> js_error + 'b) \<Rightarrow> js_error + 'b" where
  "bind_js r f = (case r of Inl e \<Rightarrow> Inl e | Inr x \<Rightarrow> f x)"

text \<open>
  A \<^verbatim>\<open>DataView\<close> store of some bytes at an index: a \<^verbatim>\<open>RangeError\<close> when they do not fit
  in the buffer.
\<close>

definition store :: "byte list \<Rightarrow> nat \<Rightarrow> byte list \<Rightarrow> js_error + byte list" where
  "store buf p bs =
     (if p + length bs \<le> length buf
      then Inr (take p buf @ bs @ drop (p + length bs) buf)
      else Inl RangeError)"

text \<open>
  The two local helpers. Their argument is a non-negative integer at every call;
  \<^verbatim>\<open>ToUint16\<close> and \<^verbatim>\<open>ToUint32\<close> reduce it modulo the width, which is \<^const>\<open>of_nat\<close> into
  the word type.
\<close>

definition setUint16 :: "nat \<Rightarrow> wav_state \<Rightarrow> js_error + wav_state" where
  "setUint16 data s =
     bind_js (store (view s) (pos s) (le16 (of_nat data)))
       (\<lambda>v. Inr (s\<lparr>view := v, pos := pos s + 2\<rparr>))"

definition setUint32 :: "nat \<Rightarrow> wav_state \<Rightarrow> js_error + wav_state" where
  "setUint32 data s =
     bind_js (store (view s) (pos s) (le32 (of_nat data)))
       (\<lambda>v. Inr (s\<lparr>view := v, pos := pos s + 4\<rparr>))"

section \<open>audioBufferToWav\<close>

definition wav_length :: "AudioBuffer \<Rightarrow> nat" where
  "wav_length b = length_frames b * numberOfChannels b * 2 + 44"

definition write_header :: "AudioBuffer \<Rightarrow> wav_state \<Rightarrow> js_error + wav_state" where
  "write_header b s0 =
     bind_js (setUint32 0x46464952 s0) (\<lambda>s.
     bind_js (setUint32 (wav_length b - 8) s) (\<lambda>s.
     bind_js (setUint32 0x45564157 s) (\<lambda>s.
     bind_js (setUint32 0x20746d66 s) (\<lambda>s.
     bind_js (setUint32 16 s) (\<lambda>s.
     bind_js (setUint16 1 s) (\<lambda>s.
     bind_js (setUint16 (numberOfChannels b) s) (\<lambda>s.
     bind_js (setUint32 (sampleRate b) s) (\<lambda>s.
     bind_js (setUint32 (sampleRate b * 2 * numberOfChannels b) s) (\<lambda>s.
     bind_js (setUint16 (numberOfChannels b * 2) s) (\<lambda>s.
     bind_js (setUint16 16 s) (\<lambda>s.
     bind_js (setUint32 0x61746164 s) (\<lambda>s.
     setUint32 (wav_length b - pos s - 4) s))))))))))))"

text \<open>
  The three statements of the inner loop body: the clamp
  \<^verbatim>\<open>Math.max(-1, Math.min(1, channels[i][offset]))\<close>, the scaling
  \<^verbatim>\<open>sample < 0 ? sample * 0x8000 : sample * 0x7FFF\<close>, and the conversion done by
  \<^verbatim>\<open>view.setInt16\<close>.
\<close>

definition clamp_sample :: "js_number \<Rightarrow> js_number" where
  "clamp_sample x = Math_max (Num (- 1)) (Math_min (Num 1) x)"

definition scale_sample :: "js_number \<Rightarrow> js_number" where
  "scale_sample s = (if js_less s (Num 0) then js_mul s (Num 0x8000) else js_mul s (Num 0x7FFF))"

definition pcm16 :: "js_number \<Rightarrow> 16 word" where
  "pcm16 x = ToInt16 (scale_sample (clamp_sample x))"

text \<open>One pass of the inner \<^verbatim>\<open>for\<close> body: the sample of channel \<open>i\<close> at frame \<^const>\<open>offset\<close>.\<close>

definition write_sample :: "js_number list list \<Rightarrow> nat \<Rightarrow> wav_state \<Rightarrow> js_error + wav_state" where
  "write_sample channels i s =
     bind_js (store (view s) (pos s) (le16 (pcm16 (typed_get (channels ! i) (offset s)))))
       (\<lambda>v. Inr (s\<lparr>view := v, pos := pos s + 2\<rparr>))"

definition for_channels :: "js_number list list \<Rightarrow> nat \<Rightarrow> wav_state \<Rightarrow> js_error + wav_state" where
  "for_channels channels numOfChan s =
     fold (\<lambda>i r. bind_js r (write_sample channels i)) [0..<numOfChan] (Inr s)"

lemma write_sample_pos: "write_sample ch i s = Inr s' \<Longrightarrow> pos s' = pos s + 2"
  by (auto simp: write_sample_def bind_js_def split: sum.splits)

lemma for_channels_pos: "for_channels ch n s = Inr s' \<Longrightarrow> pos s' = pos s + 2 * n"
proof (induction n arbitrary: s')
  case 0
  then show ?case by (simp add: for_channels_def)
next
  case (Suc n)
  from Suc.prems obtain s1 where s1: "for_channels ch n s = Inr s1"
    and w: "write_sample ch n s1 = Inr s'"
    by (auto simp: for_channels_def bind_js_def split: sum.splits)
  from Suc.IH [OF s1] write_sample_pos [OF w] show ?case by simp
qed

text \<open>
  The \<^verbatim>\<open>while\<close> loop. It is entered with \<^const>\<open>pos\<close> at 44, after the header, and runs
  while \<^verbatim>\<open>pos < length - 44\<close>.
\<close>

function data_loop :: "AudioBuffer \<Rightarrow> wav_state \<Rightarrow> js_error + wav_state" where
  "data_loop b s =
     (if pos s < wav_length b - 44
      then (case for_channels (channelData b) (numberOfChannels b) s of
              Inl e \<Rightarrow> Inl e
            | Inr s' \<Rightarrow> data_loop b (s'\<lparr>offset := offset s' + 1\<rparr>))
      else Inr s)"
  by pat_completeness auto
termination
proof (relation "measure (\<lambda>(b, s). wav_length b - 44 - pos s)")
  show "wf (measure (\<lambda>(b, s). wav_length b - 44 - pos s))" by simp
next
  fix b :: AudioBuffer and s s' :: wav_state
  assume lt: "pos s < wav_length b - 44"
    and fc: "for_channels (channelData b) (numberOfChannels b) s = Inr s'"
  have "numberOfChannels b \<noteq> 0"
  proof
    assume "numberOfChannels b = 0"
    with lt show False by (simp add: wav_length_def)
  qed
  with for_channels_pos [OF fc] lt
  show "((b, s'\<lparr>offset := offset s' + 1\<rparr>), (b, s)) \<in> measure (\<lambda>(b, s). wav_length b - 44 - pos s)"
    by simp
qed

declare data_loop.simps [simp del]

text \<open>
  \<^verbatim>\<open>new ArrayBuffer(length)\<close> is zero-filled. The result is the byte content of the returned
  \<^verbatim>\<open>Blob\<close>.
\<close>

definition audioBufferToWav :: "AudioBuffer \<Rightarrow> js_error + byte list" where
  "audioBufferToWav audioBuffer =
     (let s0 = \<lparr>view = replicate (wav_length audioBuffer) 0, pos = 0, offset = 0\<rparr>
      in bind_js (write_header audioBuffer s0) (\<lambda>s.
         bind_js (data_loop audioBuffer s) (\<lambda>s. Inr (view s))))"

section \<open>transformAudio\<close>

text \<open>
  \<^verbatim>\<open>transformAudio\<close> decodes the recording and hands the decoded buffer to the platform's audio
  engine. The engine is not part of the repository. The model keeps what its interface fixes:
  the conversions and checks of \<^verbatim>\<open>new OfflineAudioContext\<close> and of the \<^verbatim>\<open>value\<close> setter of an
  \<^verbatim>\<open>AudioParam\<close>, and the shape (channels, length, sample rate) of the buffer that
  \<^verbatim>\<open>startRendering\<close> resolves with. The sample values the renderer computes are a parameter,
  \<open>signal g c t\<close>: the value of channel \<open>c\<close> at frame \<open>t\<close> when graph \<open>g\<close> is rendered.

  The input of the model is the buffer that \<^verbatim>\<open>decodeAudioData\<close> resolved with and the sample
  rate of the \<^verbatim>\<open>AudioContext\<close>; a failed decode, a failed allocation and the implementation's
  upper limits on channels and sample rates are outside the model. \<^verbatim>\<open>pitchShift\<close> and
  \<^verbatim>\<open>playbackRate\<close> are finite doubles, given as the reals they denote.

  The \<^verbatim>\<open>length\<close> argument of the offline context decides how many frames are rendered, and
  a difference in the last bit can change its integer part; it is computed as the code computes
  it, each operator rounding to a double. The pitch ratio and the playback rate are kept as the
  reals they approximate.
\<close>

record OfflineAudioContext =
  oc_numberOfChannels :: nat
  oc_length :: nat
  oc_sampleRate :: nat

text \<open>
  The constructor converts its \<^verbatim>\<open>length\<close> argument to \<^verbatim>\<open>unsigned long\<close> and throws a
  \<^verbatim>\<open>NotSupportedError\<close> when an argument is zero.
\<close>

definition new_OfflineAudioContext :: "nat \<Rightarrow> js_number \<Rightarrow> nat \<Rightarrow> js_error + OfflineAudioContext" where
  "new_OfflineAudioContext numOfChan len rate =
     (if numOfChan = 0 \<or> ToUint32 len = 0 \<or> rate = 0 then Inl NotSupportedError
      else Inr \<lparr>oc_numberOfChannels = numOfChan, oc_length = ToUint32 len, oc_sampleRate = rate\<rparr>)"

text \<open>
  The \<^verbatim>\<open>value\<close> attribute of an \<^verbatim>\<open>AudioParam\<close> has the interface type \<^verbatim>\<open>float\<close>: assigning
  NaN, an infinity or a number beyond the single-precision range throws a \<^verbatim>\<open>TypeError\<close>.
  The rounding of an accepted number to single precision is not modelled.
\<close>

definition set_AudioParam_value :: "js_number \<Rightarrow> js_error + real" where
  "set_AudioParam_value v =
     (case v of
        Num r \<Rightarrow> if \<bar>r\<bar> < float_overflow then Inr r else Inl TypeError
      | _ \<Rightarrow> Inl TypeError)"

text \<open>
  What \<^verbatim>\<open>transformAudio\<close> has configured when it calls \<^verbatim>\<open>startRendering\<close>: the offline
  context, the buffer source with its buffer and playback rate, and the filter with its type
  and frequency; the source feeds the filter and the filter feeds the destination.
\<close>

record audio_graph =
  graph_context :: OfflineAudioContext
  source_buffer :: AudioBuffer
  source_playbackRate :: real
  filter_type :: string
  filter_frequency :: real

text \<open>
  \<^verbatim>\<open>audioBuffer.duration\<close>, in seconds: the platform divides the length by the sample rate,
  as doubles.
\<close>

definition duration :: "AudioBuffer \<Rightarrow> js_number" where
  "duration b = rounded (js_div (Num (real (length_frames b))) (Num (real (sampleRate b))))"

text \<open>
  The buffer \<^verbatim>\<open>startRendering\<close> resolves with has the channel count, length and sample rate of
  its context.
\<close>

definition startRendering :: "(audio_graph \<Rightarrow> nat \<Rightarrow> nat \<Rightarrow> js_number) \<Rightarrow> audio_graph \<Rightarrow> AudioBuffer" where
  "startRendering signal g =
     \<lparr>sampleRate = oc_sampleRate (graph_context g),
      length_frames = oc_length (graph_context g),
      channelData =
        map (\<lambda>c. map (\<lambda>t. signal g c t) [0..<oc_length (graph_context g)])
          [0..<oc_numberOfChannels (graph_context g)]\<rparr>"

text \<open>
  The body of \<^verbatim>\<open>transformAudio\<close> from the pitch ratio to \<^verbatim>\<open>source.start(0)\<close>; then the
  rendering; then the encoding.
\<close>

definition build_graph :: "AudioBuffer \<Rightarrow> nat \<Rightarrow> real \<Rightarrow> real \<Rightarrow> js_error + audio_graph" where
  "build_graph audioBuffer ctx_rate pitchShift playbackRate =
     (let pitchRatio = Math_pow2 (js_div (Num pitchShift) (Num 12));
          dur = rounded (js_div (duration audioBuffer) (Num playbackRate))
      in bind_js (new_OfflineAudioContext (numberOfChannels audioBuffer)
                    (rounded (js_mul dur (Num (real ctx_rate)))) ctx_rate) (\<lambda>oc.
         bind_js (set_AudioParam_value (js_mul (Num playbackRate) pitchRatio)) (\<lambda>rate.
         bind_js (set_AudioParam_value (Num 3000)) (\<lambda>freq.
           Inr \<lparr>graph_context = oc, source_buffer = audioBuffer, source_playbackRate = rate,
                filter_type = ''lowpass'', filter_frequency = freq\<rparr>))))"

definition renderedBuffer ::
  "(audio_graph \<Rightarrow> nat \<Rightarrow> nat \<Rightarrow> js_number) \<Rightarrow> AudioBuffer \<Rightarrow> nat \<Rightarrow> real \<Rightarrow> real \<Rightarrow> js_error + AudioBuffer" where
  "renderedBuffer signal audioBuffer ctx_rate pitchShift playbackRate =
     bind_js (build_graph audioBuffer ctx_rate pitchShift playbackRate)
       (\<lambda>g. Inr (startRendering signal g))"

definition transformAudio ::
  "(audio_graph \<Rightarrow> nat \<Rightarrow> nat \<Rightarrow> js_number) \<Rightarrow> AudioBuffer \<Rightarrow> nat \<Rightarrow> real \<Rightarrow> real \<Rightarrow> js_error + byte list" where
  "transformAudio signal audioBuffer ctx_rate pitchShift playbackRate =
     bind_js (renderedBuffer signal audioBuffer ctx_rate pitchShift playbackRate) audioBufferToWav"

section \<open>Reading the container back\<close>

text \<open>
  The little-endian \<^verbatim>\<open>DataView\<close> getters, used to state what a parser of the container
  finds at an offset.
\<close>

definition getUint16 :: "byte list \<Rightarrow> nat \<Rightarrow> nat" where
  "getUint16 bs p = unat (bs ! p) + 256 * unat (bs ! (p + 1))"

definition getUint32 :: "byte list \<Rightarrow> nat \<Rightarrow> nat" where
  "getUint32 bs p =
     unat (bs ! p) + 256 * unat (bs ! (p + 1)) + 65536 * unat (bs ! (p + 2))
       + 16777216 * unat (bs ! (p + 3))"

definition getInt16 :: "byte list \<Rightarrow> nat \<Rightarrow> int" where
  "getInt16 bs p = sint (word_cat (bs ! (p + 1)) (bs ! p) :: 16 word)"

section \<open>What the encoder writes\<close>

text \<open>The 44 header bytes, in the order of the thirteen header stores.\<close>

definition header_bytes :: "AudioBuffer \<Rightarrow> byte list" where
  "header_bytes b =
     le32 0x46464952 @ le32 (of_nat (wav_length b - 8)) @ le32 0x45564157 @ le32 0x20746d66
     @ le32 16 @ le16 1 @ le16 (of_nat (numberOfChannels b)) @ le32 (of_nat (sampleRate b))
     @ le32 (of_nat (sampleRate b * 2 * numberOfChannels b))
     @ le16 (of_nat (numberOfChannels b * 2)) @ le16 16 @ le32 0x61746164
     @ le32 (of_nat (wav_length b - 44))"

text \<open>
  The bytes of frame \<open>f\<close>: one 16-bit sample per channel, in channel order. The loop leaves
  the \<^verbatim>\<open>while\<close> as soon as \<^verbatim>\<open>pos\<close> reaches \<^verbatim>\<open>length - 44\<close>; since \<^verbatim>\<open>pos\<close> starts at 44,
  that is after \<open>frames_written\<close> frames.
\<close>

definition frame_bytes :: "AudioBuffer \<Rightarrow> nat \<Rightarrow> byte list" where
  "frame_bytes b f =
     concat (map (\<lambda>i. le16 (pcm16 (typed_get (channelData b ! i) f))) [0..<numberOfChannels b])"

definition frames_written :: "AudioBuffer \<Rightarrow> nat" where
  "frames_written b = length_frames b - 22 div numberOfChannels b"

text \<open>The values that fit the fixed-width header fields of the container.\<close>

definition fits_wav_fields :: "AudioBuffer \<Rightarrow> bool" where
  "fits_wav_fields b \<longleftrightarrow>
     numberOfChannels b * 2 < 2 ^ 16 \<and> sampleRate b < 2 ^ 32
     \<and> sampleRate b * 2 * numberOfChannels b < 2 ^ 32 \<and> wav_length b - 8 < 2 ^ 32"

text \<open>
  The integer the claim's words describe for a finite sample: clamp to \<open>[-1, 1]\<close>, scale a
  negative value by 32768 and any other by 32767, truncate towards zero. It is compared with
  \<^const>\<open>pcm16\<close> below.
\<close>

definition quantized :: "real \<Rightarrow> int" where
  "quantized x =
     (let s = max (- 1) (min 1 x) in js_trunc (if s < 0 then s * 32768 else s * 32767))"

section \<open>voicePresets\<close>

text \<open>
  The object literal \<^verbatim>\<open>voicePresets\<close>, as its list of properties in source order;
  \<^verbatim>\<open>voicePresets[presetName]\<close> is \<^const>\<open>map_of\<close>. The decimal literals are taken as the
  decimal fractions they denote.
\<close>

record preset =
  pitch :: real
  speed :: real

definition voicePresets :: "(string \<times> preset) list" where
  "voicePresets =
     [(''original'', \<lparr>pitch = 0, speed = 1.0\<rparr>),
      (''deep-male'', \<lparr>pitch = - 4, speed = 0.95\<rparr>),
      (''male'', \<lparr>pitch = - 2, speed = 1.0\<rparr>),
      (''female'', \<lparr>pitch = 4, speed = 1.05\<rparr>),
      (''high-female'', \<lparr>pitch = 6, speed = 1.1\<rparr>),
      (''robotic'', \<lparr>pitch = - 1, speed = 0.9\<rparr>)]"

section \<open>Concrete buffers\<close>

text \<open>
  A mono buffer of 23 frames, all at full scale, and a stereo buffer of 12 frames with the left
  channel at \<open>1\<close> and the right at \<open>-1\<close>.
\<close>

definition mono23 :: AudioBuffer where
  "mono23 = \<lparr>sampleRate = 8000, length_frames = 23, channelData = [replicate 23 (Num 1)]\<rparr>"

definition stereo12 :: AudioBuffer where
  "stereo12 = \<lparr>sampleRate = 44100, length_frames = 12,
                 channelData = [replicate 12 (Num 1), replicate 12 (Num (- 1))]\<rparr>"

text \<open>
  The 23 full-scale frames at 44100 Hz, and a stereo buffer of 13 frames whose first frame is
  beyond full scale on both channels and whose second frame is at full scale.
\<close>

definition mono23_44k :: AudioBuffer where
  "mono23_44k = \<lparr>sampleRate = 44100, length_frames = 23, channelData = [replicate 23 (Num 1)]\<rparr>"

definition clipped13 :: AudioBuffer where
  "clipped13 = \<lparr>sampleRate = 44100, length_frames = 13,
                  channelData = [Num (3 / 2) # Num 1 # replicate 11 (Num 0),
                                 Num (- 2) # Num (- 1) # replicate 11 (Num 0)]\<rparr>"

text \<open>
  A renderer that produces silence, for the concrete runs of statements that hold for any
  renderer.
\<close>

definition silent :: "audio_graph \<Rightarrow> nat \<Rightarrow> nat \<Rightarrow> js_number" where
  "silent g c t = Num 0"

section \<open>Byte-level lemmas\<close>

text \<open>
  The result of the encoder in closed form (\<open>audioBufferToWav_bytes\<close>): the header, the frames
  the loop stores, and the zero bytes it leaves. The loop is followed through its states, each
  of the form "what has been written so far, then zeros".
\<close>

lemma nat_bytes16:
  fixes x :: nat
  shows "x mod 256 + 256 * (x div 256 mod 256) = x mod 65536"
  using mod_mult2_eq [of x 256 256] by simp

lemma nat_bytes32:
  fixes x :: nat
  shows "x mod 256 + 256 * (x div 256 mod 256) + 65536 * (x div 65536 mod 256)
           + 16777216 * (x div 16777216 mod 256) = x mod 4294967296"
proof -
  have hi: "(x div 65536) mod 256 + 256 * (x div 65536 div 256 mod 256) = (x div 65536) mod 65536"
    by (rule nat_bytes16)
  have d: "x div 65536 div 256 = x div 16777216"
    by (simp add: div_mult2_eq [symmetric])
  have "x mod 4294967296 = 65536 * (x div 65536 mod 65536) + x mod 65536"
    using mod_mult2_eq [of x 65536 65536] by simp
  also have "\<dots> = 65536 * ((x div 65536) mod 256 + 256 * (x div 16777216 mod 256))
                      + (x mod 256 + 256 * (x div 256 mod 256))"
    using hi d nat_bytes16 [of x] by simp
  finally show ?thesis by simp
qed

lemma unat_byte:
  fixes w :: "'a::len word"
  shows "unat (ucast (drop_bit n w) :: byte) = unat w div 2 ^ n mod 256"
  unfolding unsigned_ucast_eq unat_drop_bit_eq
  by (simp add: take_bit_eq_mod drop_bit_eq_div)

lemma le32_decode:
  "unat (le32 w ! 0) + 256 * unat (le32 w ! 1) + 65536 * unat (le32 w ! 2)
     + 16777216 * unat (le32 w ! 3) = unat w"
proof -
  have lt: "unat w < 4294967296"
    using unsigned_less [of w, where 'a = nat] by simp
  have b0: "unat (le32 w ! 0) = unat w mod 256"
    using unat_byte [of 0 w] by (simp add: le32_def)
  have b1: "unat (le32 w ! 1) = unat w div 256 mod 256"
    using unat_byte [of 8 w] by (simp add: le32_def)
  have b2: "unat (le32 w ! 2) = unat w div 65536 mod 256"
    using unat_byte [of 16 w] by (simp add: le32_def)
  have b3: "unat (le32 w ! 3) = unat w div 16777216 mod 256"
    using unat_byte [of 24 w] by (simp add: le32_def)
  show ?thesis
    unfolding b0 b1 b2 b3 using nat_bytes32 [of "unat w"] lt by simp
qed

lemma le16_decode:
  "unat (le16 w ! 0) + 256 * unat (le16 w ! 1) = unat w"
proof -
  have lt: "unat w < 65536"
    using unsigned_less [of w, where 'a = nat] by simp
  have b0: "unat (le16 w ! 0) = unat w mod 256"
    using unat_byte [of 0 w] by (simp add: le16_def)
  have b1: "unat (le16 w ! 1) = unat w div 256 mod 256"
    using unat_byte [of 8 w] by (simp add: le16_def)
  show ?thesis
    unfolding b0 b1 using nat_bytes16 [of "unat w"] lt by simp
qed

lemma le16_cat: "(word_cat (le16 w ! 1) (le16 w ! 0) :: 16 word) = w"
  apply (simp add: le16_def)
  apply (rule bit_word_eqI)
  apply (auto simp add: bit_word_cat_iff bit_ucast_iff bit_drop_bit_eq)
  done

lemma length_le32 [simp]: "length (le32 w) = 4"
  by (simp add: le32_def)

lemma length_le16 [simp]: "length (le16 w) = 2"
  by (simp add: le16_def)

lemma length_header_bytes [simp]: "length (header_bytes b) = 44"
  by (simp add: header_bytes_def)

lemma write_header_result:
  "write_header b \<lparr>view = replicate (wav_length b) 0, pos = 0, offset = 0\<rparr>
     = Inr \<lparr>view = header_bytes b @ replicate (length_frames b * numberOfChannels b * 2) 0,
            pos = 44, offset = 0\<rparr>"
  by (simp add: write_header_def setUint32_def setUint16_def store_def bind_js_def wav_length_def
      header_bytes_def)

lemma length_concat_le16: "length (concat (map (\<lambda>i. le16 (g i)) [0..<k])) = 2 * k"
  by (induction k) simp_all

lemma length_frame_bytes [simp]: "length (frame_bytes b f) = 2 * numberOfChannels b"
  by (simp add: frame_bytes_def length_concat_le16)

lemma length_concat_frames [simp]:
  "length (concat (map (frame_bytes b) [0..<k])) = 2 * numberOfChannels b * k"
  by (induction k) (simp_all add: algebra_simps)

lemma write_sample_append:
  assumes "view s = pre @ replicate (n + 2) 0" and "pos s = length pre"
  shows "write_sample ch i s =
           Inr (s\<lparr>view := (pre @ le16 (pcm16 (typed_get (ch ! i) (offset s)))) @ replicate n 0,
                  pos := length pre + 2\<rparr>)"
  using assms by (simp add: write_sample_def store_def bind_js_def)

lemma for_channels_append:
  assumes "view s = pre @ replicate (n + 2 * k) 0" and "pos s = length pre"
  shows "for_channels ch k s =
           Inr (s\<lparr>view := (pre @ concat (map (\<lambda>i. le16 (pcm16 (typed_get (ch ! i) (offset s)))) [0..<k]))
                          @ replicate n 0,
                  pos := length pre + 2 * k\<rparr>)"
  using assms
proof (induction k arbitrary: n)
  case 0
  then show ?case by (simp add: for_channels_def)
next
  case (Suc k)
  let ?mid = "concat (map (\<lambda>i. le16 (pcm16 (typed_get (ch ! i) (offset s)))) [0..<k])"
  from Suc.prems have v: "view s = pre @ replicate ((n + 2) + 2 * k) 0"
    by (simp add: add.commute add.left_commute)
  from Suc.IH [OF v Suc.prems(2)]
  have k: "for_channels ch k s =
             Inr (s\<lparr>view := (pre @ ?mid) @ replicate (n + 2) 0, pos := length pre + 2 * k\<rparr>)" .
  have "for_channels ch (Suc k) s = bind_js (for_channels ch k s) (write_sample ch k)"
    by (simp add: for_channels_def)
  also have "\<dots> = write_sample ch k
                       (s\<lparr>view := (pre @ ?mid) @ replicate (n + 2) 0, pos := length pre + 2 * k\<rparr>)"
    by (simp add: k bind_js_def)
  also have "\<dots> = Inr (s\<lparr>view := ((pre @ ?mid) @ le16 (pcm16 (typed_get (ch ! k) (offset s))))
                                    @ replicate n 0,
                           pos := length (pre @ ?mid) + 2\<rparr>)"
    by (subst write_sample_append [where pre = "pre @ ?mid" and n = n])
       (simp_all add: length_concat_le16)
  finally show ?case by (simp add: length_concat_le16)
qed

lemma loop_cond_iff:
  fixes c k n :: nat
  assumes "0 < c"
  shows "(44 + 2 * c * k < n * c * 2) \<longleftrightarrow> (k < n - 22 div c)"
proof -
  have "(k < n - 22 div c) \<longleftrightarrow> (22 div c < n - k)" by arith
  also have "\<dots> \<longleftrightarrow> (22 < (n - k) * c)"
    using assms by (simp add: div_less_iff_less_mult)
  also have "\<dots> \<longleftrightarrow> (22 + k * c < n * c)"
  proof (cases "k \<le> n")
    case True
    then have "n * c = (n - k) * c + k * c"
      by (simp add: diff_mult_distrib)
    then show ?thesis by simp
  next
    case False
    then have nk: "n - k = 0" and le: "n * c \<le> k * c" by simp_all
    from le have "\<not> 22 + k * c < n * c" by arith
    with nk show ?thesis by simp
  qed
  also have "\<dots> \<longleftrightarrow> (2 * (22 + k * c) < 2 * (n * c))"
    by arith
  also have "2 * (22 + k * c) = 44 + 2 * c * k"
    by (simp add: algebra_simps)
  also have "2 * (n * c) = n * c * 2"
    by simp
  finally show ?thesis by simp
qed

lemma data_loop_result:
  assumes c: "0 < numberOfChannels b"
    and hdr: "length hdr = 44"
    and k: "k \<le> frames_written b"
    and v: "view s = (hdr @ concat (map (frame_bytes b) [0..<k]))
                      @ replicate (2 * numberOfChannels b * (length_frames b - k)) 0"
    and p: "pos s = 44 + 2 * numberOfChannels b * k"
    and off: "offset s = k"
  shows "data_loop b s =
           Inr \<lparr>view = (hdr @ concat (map (frame_bytes b) [0..<frames_written b]))
                          @ replicate (2 * numberOfChannels b * (length_frames b - frames_written b)) 0,
                pos = 44 + 2 * numberOfChannels b * frames_written b,
                offset = frames_written b\<rparr>"
  using k v p off
proof (induction "frames_written b - k" arbitrary: k s)
  case 0
  then have keq: "k = frames_written b" by simp
  have "\<not> pos s < wav_length b - 44"
    using loop_cond_iff [OF c, of k "length_frames b"] 0 keq
    by (simp add: wav_length_def frames_written_def)
  then have "data_loop b s = Inr s"
    by (simp add: data_loop.simps)
  with 0 keq show ?case by simp
next
  case (Suc m)
  then have klt: "k < frames_written b" by simp
  then have kn: "k < length_frames b" by (simp add: frames_written_def)
  have cond: "pos s < wav_length b - 44"
    using loop_cond_iff [OF c, of k "length_frames b"] klt Suc.prems
    by (simp add: wav_length_def frames_written_def)
  let ?pre = "hdr @ concat (map (frame_bytes b) [0..<k])"
  let ?n = "2 * numberOfChannels b * (length_frames b - Suc k)"
  have "2 * numberOfChannels b * (length_frames b - k) = ?n + 2 * numberOfChannels b"
  proof -
    from kn have "length_frames b - k = Suc (length_frames b - Suc k)" by simp
    then show ?thesis by simp
  qed
  with Suc.prems have v': "view s = ?pre @ replicate (?n + 2 * numberOfChannels b) 0" by simp
  have p': "pos s = length ?pre"
    using Suc.prems hdr by simp
  from for_channels_append [OF v' p', of "channelData b"] Suc.prems
  have fc: "for_channels (channelData b) (numberOfChannels b) s =
              Inr (s\<lparr>view := (?pre @ frame_bytes b k) @ replicate ?n 0,
                     pos := length ?pre + 2 * numberOfChannels b\<rparr>)"
    by (simp add: frame_bytes_def)
  let ?s1 = "s\<lparr>view := (?pre @ frame_bytes b k) @ replicate ?n 0,
                pos := length ?pre + 2 * numberOfChannels b, offset := Suc k\<rparr>"
  have step: "data_loop b s = data_loop b ?s1"
    using cond fc Suc.prems by (subst data_loop.simps) simp
  have "data_loop b ?s1 =
           Inr \<lparr>view = (hdr @ concat (map (frame_bytes b) [0..<frames_written b]))
                          @ replicate (2 * numberOfChannels b * (length_frames b - frames_written b)) 0,
                pos = 44 + 2 * numberOfChannels b * frames_written b,
                offset = frames_written b\<rparr>"
  proof (rule Suc.hyps(1))
    show "m = frames_written b - Suc k" using Suc.hyps(2) by simp
    show "Suc k \<le> frames_written b" using klt by simp
    show "view ?s1 = (hdr @ concat (map (frame_bytes b) [0..<Suc k])) @ replicate ?n 0"
      by simp
    show "pos ?s1 = 44 + 2 * numberOfChannels b * Suc k"
      using hdr by simp
    show "offset ?s1 = Suc k" by simp
  qed
  with step show ?case by simp
qed

lemma concat_map_Nil [simp]: "concat (map (\<lambda>_. []) xs) = []"
  by (induction xs) simp_all

lemma audioBufferToWav_bytes:
  "audioBufferToWav b =
     Inr (header_bytes b @ concat (map (frame_bytes b) [0..<frames_written b])
          @ replicate (2 * numberOfChannels b * (length_frames b - frames_written b)) 0)"
proof (cases "numberOfChannels b = 0")
  case True
  have fb: "frame_bytes b = (\<lambda>_. [])"
    using True by (simp add: frame_bytes_def fun_eq_iff)
  have dl: "data_loop b \<lparr>view = header_bytes b, pos = 44, offset = 0\<rparr>
              = Inr \<lparr>view = header_bytes b, pos = 44, offset = 0\<rparr>"
    using True by (simp add: data_loop.simps wav_length_def)
  show ?thesis
    using True by (simp add: audioBufferToWav_def write_header_result bind_js_def dl fb)
next
  case False
  then have c: "0 < numberOfChannels b" by simp
  let ?s = "\<lparr>view = header_bytes b @ replicate (length_frames b * numberOfChannels b * 2) 0,
              pos = 44, offset = 0\<rparr>"
  have "data_loop b ?s =
           Inr \<lparr>view = (header_bytes b @ concat (map (frame_bytes b) [0..<frames_written b]))
                          @ replicate (2 * numberOfChannels b * (length_frames b - frames_written b)) 0,
                pos = 44 + 2 * numberOfChannels b * frames_written b,
                offset = frames_written b\<rparr>"
    by (rule data_loop_result [OF c, where k = 0]) (simp_all add: mult_ac)
  then show ?thesis
    by (simp add: audioBufferToWav_def write_header_result bind_js_def)
qed

lemma getUint32_le32:
  assumes "length pre = p"
  shows "getUint32 (pre @ le32 w @ rest) p = unat w"
proof -
  have "\<And>i. i < 4 \<Longrightarrow> (pre @ le32 w @ rest) ! (p + i) = le32 w ! i"
    using assms by (simp add: nth_append)
  from this [of 0] this [of 1] this [of 2] this [of 3] le32_decode [of w]
  show ?thesis by (simp add: getUint32_def)
qed

lemma getUint16_le16:
  assumes "length pre = p"
  shows "getUint16 (pre @ le16 w @ rest) p = unat w"
proof -
  have "\<And>i. i < 2 \<Longrightarrow> (pre @ le16 w @ rest) ! (p + i) = le16 w ! i"
    using assms by (simp add: nth_append)
  from this [of 0] this [of 1] le16_decode [of w]
  show ?thesis by (simp add: getUint16_def)
qed

lemma getInt16_le16:
  assumes "length pre = p"
  shows "getInt16 (pre @ le16 w @ rest) p = sint w"
proof -
  have "\<And>i. i < 2 \<Longrightarrow> (pre @ le16 w @ rest) ! (p + i) = le16 w ! i"
    using assms by (simp add: nth_append)
  from this [of 0] this [of 1] le16_cat [of w]
  show ?thesis by (simp add: getInt16_def)
qed

lemma getUint32_skip:
  "length xs \<le> p \<Longrightarrow> getUint32 (xs @ ys) p = getUint32 ys (p - length xs)"
  by (simp add: getUint32_def nth_append Suc_diff_le)

lemma getUint16_skip:
  "length xs \<le> p \<Longrightarrow> getUint16 (xs @ ys) p = getUint16 ys (p - length xs)"
  by (simp add: getUint16_def nth_append Suc_diff_le)

lemma getUint32_here: "getUint32 (le32 w @ rest) 0 = unat w"
  using getUint32_le32 [of "[]" 0 w rest] by simp

lemma getUint16_here: "getUint16 (le16 w @ rest) 0 = unat w"
  using getUint16_le16 [of "[]" 0 w rest] by simp

lemma frames_written_le: "frames_written b \<le> length_frames b"
  by (simp add: frames_written_def)

lemma length_audioBufferToWav:
  "audioBufferToWav b = Inr bs \<Longrightarrow> length bs = wav_length b"
proof -
  assume "audioBufferToWav b = Inr bs"
  then have bs: "bs = header_bytes b @ concat (map (frame_bytes b) [0..<frames_written b])
          @ replicate (2 * numberOfChannels b * (length_frames b - frames_written b)) 0"
    by (simp add: audioBufferToWav_bytes)
  have "2 * numberOfChannels b * frames_written b
          + 2 * numberOfChannels b * (length_frames b - frames_written b)
        = 2 * numberOfChannels b * length_frames b"
    using frames_written_le [of b] by (simp flip: distrib_left)
  then show ?thesis
    by (simp add: bs wav_length_def mult_ac)
qed

lemma clamp_Num: "clamp_sample (Num x) = Num (max (- 1) (min 1 x))"
  by (simp add: clamp_sample_def)

lemma double_overflow_big: "2 ^ 64 < double_overflow"
  by (simp add: double_overflow_def)

lemma float_overflow_big: "2 ^ 64 < float_overflow"
  by (simp add: float_overflow_def)

lemma dbl_Num: "\<bar>r\<bar> < double_overflow \<Longrightarrow> dbl r = Num r"
  by (simp add: dbl_def abs_less_iff)

lemma dbl_small: "\<bar>r\<bar> \<le> 2 ^ 64 \<Longrightarrow> dbl r = Num r"
  using double_overflow_big by (intro dbl_Num) simp

lemma dbl_cases:
  obtains (fin) "dbl r = Num r" | (pinf) "dbl r = PosInf" | (ninf) "dbl r = NegInf"
  unfolding dbl_def by (cases "double_overflow \<le> r"; cases "r \<le> - double_overflow") simp_all

lemma scale_Num:
  assumes "- 1 \<le> s" and "s \<le> 1"
  shows "scale_sample (Num s) = Num (if s < 0 then s * 32768 else s * 32767)"
proof -
  have "\<bar>s * 32768\<bar> \<le> 2 ^ 64" and "\<bar>s * 32767\<bar> \<le> 2 ^ 64"
    using assms by (simp_all add: abs_mult abs_le_iff)
  then have "dbl (s * 32768) = Num (s * 32768)" and "dbl (s * 32767) = Num (s * 32767)"
    by (simp_all add: dbl_small)
  then show ?thesis by (simp add: scale_sample_def)
qed

lemma scale_clamp_Num:
  "scale_sample (clamp_sample (Num x))
     = Num (let s = max (- 1) (min 1 x) in if s < 0 then s * 32768 else s * 32767)"
  unfolding clamp_Num Let_def by (rule scale_Num) simp_all

lemma trunc_bounds_neg:
  assumes "- 1 \<le> s" "s < 0"
  shows "- 32768 \<le> js_trunc (s * 32768) \<and> js_trunc (s * 32768) \<le> 32767"
proof -
  have neg: "s * 32768 < 0" using assms by simp
  have t: "js_trunc (s * 32768) = - \<lfloor>- (s * 32768)\<rfloor>"
    using neg by (simp only: js_trunc_def if_True)
  have "- (s * 32768) \<le> 32768" using assms by simp
  then have hi: "\<lfloor>- (s * 32768)\<rfloor> \<le> 32768" by (simp only: floor_le_iff)
  have "0 \<le> - (s * 32768)" using neg by simp
  then have lo: "0 \<le> \<lfloor>- (s * 32768)\<rfloor>" by (simp only: zero_le_floor)
  from t hi lo show ?thesis by linarith
qed

lemma trunc_bounds_pos:
  assumes "0 \<le> s" "s \<le> 1"
  shows "- 32768 \<le> js_trunc (s * 32767) \<and> js_trunc (s * 32767) \<le> 32767"
proof -
  have nn: "\<not> s * 32767 < 0" using assms by simp
  have t: "js_trunc (s * 32767) = \<lfloor>s * 32767\<rfloor>"
    using nn by (simp only: js_trunc_def if_False)
  have "s * 32767 \<le> 32767" using assms by simp
  then have hi: "\<lfloor>s * 32767\<rfloor> \<le> 32767" by (simp only: floor_le_iff)
  have "0 \<le> s * 32767" using assms by simp
  then have lo: "0 \<le> \<lfloor>s * 32767\<rfloor>" by (simp only: zero_le_floor)
  from t hi lo show ?thesis by linarith
qed

lemma sint_word16_of_int:
  assumes "- 32768 \<le> i \<and> i \<le> 32767"
  shows "sint (word_of_int i :: 16 word) = i"
  using assms by (simp add: signed_of_int signed_take_bit_int_eq_self)

lemma quantized_range: "- 32768 \<le> quantized x \<and> quantized x \<le> 32767"
proof -
  define s where "s = max (- 1) (min 1 x)"
  have b: "- 1 \<le> s" "s \<le> 1" by (simp_all add: s_def)
  have q: "quantized x = js_trunc (if s < 0 then s * 32768 else s * 32767)"
    by (simp only: quantized_def s_def Let_def)
  show ?thesis
  proof (cases "s < 0")
    case True
    with trunc_bounds_neg [OF b(1)] q show ?thesis by simp
  next
    case False
    then have "0 \<le> s" by simp
    from trunc_bounds_pos [OF this b(2)] q False show ?thesis by simp
  qed
qed

lemma pcm16_Num: "sint (pcm16 (Num x)) = quantized x"
proof -
  have "pcm16 (Num x) = word_of_int (quantized x)"
    by (simp only: pcm16_def scale_clamp_Num quantized_def Let_def ToInt16.simps)
  with sint_word16_of_int [OF quantized_range [of x]] show ?thesis by simp
qed

text \<open>
  What a parser reads at the position of frame \<open>f\<close>, channel \<open>c\<close>: the quantized sample
  for the frames the loop stores, 0 for the frames it leaves out.
\<close>

lemma concat_map_split:
  assumes "f < k"
  shows "concat (map g [0..<k]) = concat (map g [0..<f]) @ g f @ concat (map g [Suc f..<k])"
proof -
  from assms have "[0..<k] = [0..<f] @ f # [Suc f..<k]"
    by (metis le0 less_imp_le_nat upt_add_eq_append upt_conv_Cons le_add_diff_inverse)
  then show ?thesis by simp
qed

lemma data_section_sample:
  assumes c: "c < numberOfChannels b" and f: "f < length_frames b"
    and enc: "audioBufferToWav b = Inr bs"
  shows "getInt16 bs (44 + (f * numberOfChannels b + c) * 2)
           = (if f < frames_written b then sint (pcm16 (typed_get (channelData b ! c) f)) else 0)"
proof -
  let ?C = "numberOfChannels b" and ?K = "frames_written b" and ?N = "length_frames b"
  let ?h = "\<lambda>i. le16 (pcm16 (typed_get (channelData b ! i) f))"
  let ?Z = "replicate (2 * ?C * (?N - ?K)) (0 :: byte)"
  let ?p = "44 + (f * ?C + c) * 2"
  from enc have bs: "bs = header_bytes b @ concat (map (frame_bytes b) [0..<?K]) @ ?Z"
    by (simp add: audioBufferToWav_bytes)
  show ?thesis
  proof (cases "f < ?K")
    case True
    let ?A = "concat (map (frame_bytes b) [0..<f])"
    let ?B = "concat (map (frame_bytes b) [Suc f..<?K])"
    let ?A' = "concat (map ?h [0..<c])"
    let ?B' = "concat (map ?h [Suc c..<?C])"
    have fb: "frame_bytes b f = ?A' @ ?h c @ ?B'"
      unfolding frame_bytes_def by (rule concat_map_split [OF c])
    have "bs = header_bytes b @ (?A @ frame_bytes b f @ ?B) @ ?Z"
      unfolding bs using concat_map_split [OF True, of "frame_bytes b"] by simp
    then have split: "bs = (header_bytes b @ ?A @ ?A') @ ?h c @ (?B' @ ?B @ ?Z)"
      by (simp add: fb)
    have len: "length (header_bytes b @ ?A @ ?A') = ?p"
      by (simp add: length_concat_le16 algebra_simps)
    have "getInt16 bs ?p = sint (pcm16 (typed_get (channelData b ! c) f))"
      unfolding split by (rule getInt16_le16 [OF len])
    with True show ?thesis by simp
  next
    case False
    then have K: "?K \<le> f" by simp
    let ?D = "header_bytes b @ concat (map (frame_bytes b) [0..<?K])"
    define m where "m = ?C * ?K"
    define n where "n = f * ?C"
    define r where "r = ?C * (?N - ?K)"
    have lenD: "length ?D = 44 + 2 * m" by (simp add: m_def)
    have lenZ: "length ?Z = 2 * r" by (simp add: r_def)
    have p: "?p = 44 + 2 * (n + c)" by (simp add: n_def)
    have mn: "m \<le> n" unfolding m_def n_def using K by (simp add: mult.commute)
    have "n + c < f * ?C + ?C" using c by (simp add: n_def)
    also have "\<dots> = Suc f * ?C" by simp
    also have "\<dots> \<le> ?N * ?C" using f by (intro mult_le_mono1) simp
    also have "\<dots> = m + r"
    proof -
      have "?N = ?K + (?N - ?K)" using frames_written_le [of b] by simp
      then have "?C * ?N = ?C * ?K + ?C * (?N - ?K)"
        by (metis distrib_left)
      then show ?thesis by (simp add: m_def r_def mult.commute)
    qed
    finally have nr: "n + c < m + r" .
    have ge: "length ?D \<le> ?p" unfolding lenD p using mn by simp
    have lt: "?p + 1 - length ?D < length ?Z" unfolding lenD p lenZ using mn nr by simp
    have bs': "bs = ?D @ ?Z" by (simp add: bs)
    have z0: "bs ! ?p = 0"
      unfolding bs' using ge lt by (subst nth_append) (simp del: length_append)
    have z1: "bs ! (?p + 1) = 0"
      unfolding bs' using ge lt by (subst nth_append) (simp del: length_append)
    from False z0 z1 show ?thesis by (simp add: getInt16_def)
  qed
qed

section \<open>Rounding to a double: lemmas\<close>

text \<open>
  A real within half a unit of an integer multiple of its \<open>ulp\<close> rounds to that multiple
  (\<open>round_double_eval\<close>, for the concrete runs); a number in the normal range moves by at
  most \<open>2\<close> to the \<open>-53\<close> of itself (\<open>round_double_error\<close>); a number with a
  significand of at most 53 bits does not move (\<open>round_double_exact\<close>), so the products of
  the encoder are exact for single-precision samples (\<open>scale_sample_exact\<close>).
\<close>

lemma round_half_even_near:
  assumes "\<bar>y - of_int n\<bar> < 1 / 2"
  shows "round_half_even y = n"
proof -
  have "\<lfloor>y\<rfloor> = n \<or> \<lfloor>y\<rfloor> = n - 1" using assms by linarith
  then show ?thesis
  proof
    assume f: "\<lfloor>y\<rfloor> = n"
    then have "y - of_int n < 1 / 2" using assms by linarith
    then show ?thesis by (simp add: round_half_even_def f)
  next
    assume f: "\<lfloor>y\<rfloor> = n - 1"
    then have "real_of_int \<lfloor>y\<rfloor> = of_int n - 1" by simp
    then have "\<not> y - of_int \<lfloor>y\<rfloor> < 1 / 2" and "1 / 2 < y - of_int \<lfloor>y\<rfloor>"
      using assms by linarith+
    then show ?thesis by (simp add: round_half_even_def Let_def f)
  qed
qed

lemma round_half_even_error: "\<bar>of_int (round_half_even y) - y\<bar> \<le> 1 / 2"
proof -
  have "of_int \<lfloor>y\<rfloor> \<le> y" "y < of_int \<lfloor>y\<rfloor> + 1" by linarith+
  then show ?thesis
    by (auto simp: round_half_even_def Let_def)
qed

lemma ulp_pos: "0 < ulp x"
  by (simp add: ulp_def)

lemma ulp_eq:
  assumes "m \<le> 1074" and "2 ^ 52 \<le> \<bar>x\<bar> * 2 ^ m" and "\<bar>x\<bar> * 2 ^ m < 2 ^ 53"
  shows "ulp x = 1 / 2 ^ m"
proof -
  have x: "0 < \<bar>x\<bar>" using assms(2) by (cases "x = 0") simp_all
  have p: "(2::real) powr real_of_int (52 - int m) = 2 ^ 52 / 2 ^ m"
    by (simp add: powr_diff powr_realpow)
  have q: "(2::real) powr real_of_int (52 - int m + 1) = 2 ^ 53 / 2 ^ m"
    by (simp add: powr_diff powr_add powr_realpow)
  have "2 powr real_of_int (52 - int m) \<le> \<bar>x\<bar>"
    unfolding p using assms(2) by (simp add: field_simps)
  moreover have "\<bar>x\<bar> < 2 powr real_of_int (52 - int m + 1)"
    unfolding q using assms(3) by (simp add: field_simps)
  ultimately have "\<lfloor>log 2 \<bar>x\<bar>\<rfloor> = 52 - int m"
    using x by (subst floor_log_eq_powr_iff) simp_all
  moreover have "max (52 - int m) (- 1022) - 52 = - int m" using assms(1) by simp
  ultimately have "ulp x = 2 powr real_of_int (- int m)" by (simp add: ulp_def)
  also have "\<dots> = 1 / 2 ^ m" by (simp add: powr_minus powr_realpow inverse_eq_divide)
  finally show ?thesis .
qed

lemma round_double_eval:
  assumes "m \<le> 1074" and "2 ^ 52 \<le> \<bar>x\<bar> * 2 ^ m" and "\<bar>x\<bar> * 2 ^ m < 2 ^ 53"
    and "\<bar>x * 2 ^ m - of_int n\<bar> < 1 / 2"
  shows "round_double x = of_int n / 2 ^ m"
proof -
  have u: "ulp x = 1 / 2 ^ m" by (rule ulp_eq [OF assms(1-3)])
  have "round_half_even (x / ulp x) = n"
    using assms(4) by (intro round_half_even_near) (simp add: u)
  then show ?thesis by (simp add: round_double_def u)
qed

lemma round_double_0: "round_double 0 = 0"
proof -
  have "round_half_even 0 = 0" by (simp add: round_half_even_def)
  then show ?thesis by (simp add: round_double_def)
qed

lemma ulp_normal:
  assumes "2 powr (- 1022) \<le> \<bar>x\<bar>"
  shows "ulp x \<le> \<bar>x\<bar> / 2 ^ 52"
proof -
  have x: "0 < \<bar>x\<bar>" using assms by (rule less_le_trans [rotated]) simp
  define e where "e = \<lfloor>log 2 \<bar>x\<bar>\<rfloor>"
  have "2 powr real_of_int e \<le> \<bar>x\<bar>"
    using floor_log_eq_powr_iff [of "\<bar>x\<bar>" 2 e] x by (simp add: e_def)
  have "- 1022 \<le> e"
  proof -
    have "log 2 (2 powr (- 1022)) \<le> log 2 \<bar>x\<bar>"
      using assms x by (subst log_le_cancel_iff) simp_all
    then have "- 1022 \<le> log 2 \<bar>x\<bar>" by simp
    then show ?thesis unfolding e_def by (simp add: le_floor_iff)
  qed
  then have "max e (- 1022) = e" by simp
  then have "ulp x = 2 powr real_of_int (e - 52)"
    unfolding ulp_def e_def [symmetric] by simp
  then have "ulp x = 2 powr (real_of_int e - 52)" by simp
  also have "\<dots> = 2 powr real_of_int e / 2 ^ 52"
    by (simp add: powr_diff)
  also have "\<dots> \<le> \<bar>x\<bar> / 2 ^ 52"
    using \<open>2 powr real_of_int e \<le> \<bar>x\<bar>\<close> by (simp add: divide_right_mono)
  finally show ?thesis .
qed

lemma round_double_error:
  assumes "x = 0 \<or> 2 powr (- 1022) \<le> \<bar>x\<bar>"
  shows "\<bar>round_double x - x\<bar> \<le> \<bar>x\<bar> / 2 ^ 53"
proof (cases "x = 0")
  case True
  then show ?thesis by (simp add: round_double_0)
next
  case False
  with assms have n: "2 powr (- 1022) \<le> \<bar>x\<bar>" by simp
  let ?u = "ulp x"
  have u: "0 < ?u" by (rule ulp_pos)
  have "round_double x - x = (of_int (round_half_even (x / ?u)) - x / ?u) * ?u"
    using u by (simp add: round_double_def algebra_simps)
  then have "\<bar>round_double x - x\<bar> = \<bar>of_int (round_half_even (x / ?u)) - x / ?u\<bar> * ?u"
    using u by (simp add: abs_mult)
  also have "\<dots> \<le> (1 / 2) * ?u"
    using round_half_even_error [of "x / ?u"] u by (intro mult_right_mono) simp_all
  also have "\<dots> \<le> (1 / 2) * (\<bar>x\<bar> / 2 ^ 52)"
    using ulp_normal [OF n] by (intro mult_left_mono) simp_all
  also have "\<dots> = \<bar>x\<bar> / 2 ^ 53" by simp
  finally show ?thesis .
qed

lemma normal_from_2_64: "2 powr (- 1022) \<le> (1 / 2 ^ 64 :: real)"
proof -
  have "(2::real) powr (- 1022) \<le> 2 powr (- 64)"
    by (intro powr_mono) simp_all
  also have "\<dots> = 1 / 2 ^ 64"
    by (simp add: powr_minus inverse_eq_divide)
  finally show ?thesis .
qed

lemma round_double_bounds:
  assumes "x = 0 \<or> 1 / 2 ^ 64 \<le> x"
  shows "x * (1 - 1 / 2 ^ 53) \<le> round_double x" and "round_double x \<le> x * (1 + 1 / 2 ^ 53)"
proof -
  have x0: "0 \<le> x"
  proof (cases "x = 0")
    case False
    with assms have "1 / 2 ^ 64 \<le> x" by simp
    then show ?thesis by (rule order_trans [rotated]) simp
  qed simp
  have "x = 0 \<or> 2 powr (- 1022) \<le> \<bar>x\<bar>"
  proof (cases "x = 0")
    case False
    with assms have "1 / 2 ^ 64 \<le> x" by simp
    with normal_from_2_64 have "2 powr (- 1022) \<le> x" by (rule order_trans)
    then show ?thesis using x0 by simp
  qed simp
  from round_double_error [OF this] have "\<bar>round_double x - x\<bar> \<le> x / 2 ^ 53"
    using x0 by simp
  then have "x - x / 2 ^ 53 \<le> round_double x" and "round_double x \<le> x + x / 2 ^ 53"
    by linarith+
  then show "x * (1 - 1 / 2 ^ 53) \<le> round_double x" and "round_double x \<le> x * (1 + 1 / 2 ^ 53)"
    by (simp_all add: algebra_simps)
qed

lemma round_double_pos:
  assumes "1 / 2 ^ k \<le> x" and "k \<le> 64"
  shows "x * (1 - 1 / 2 ^ 53) \<le> round_double x" and "round_double x \<le> x * (1 + 1 / 2 ^ 53)"
    and "1 / 2 ^ Suc k \<le> round_double x"
proof -
  have "(1::real) / 2 ^ 64 \<le> 1 / 2 ^ k"
    using assms(2) by (intro divide_left_mono power_increasing) simp_all
  then have "1 / 2 ^ 64 \<le> x" using assms(1) by (rule order_trans)
  then have n: "x = 0 \<or> 1 / 2 ^ 64 \<le> x" by (rule disjI2)
  show lo: "x * (1 - 1 / 2 ^ 53) \<le> round_double x"
    and "round_double x \<le> x * (1 + 1 / 2 ^ 53)"
    by (rule round_double_bounds [OF n])+
  have "0 \<le> x" using assms(1) by (rule order_trans [rotated]) simp
  then have "x * (1 / 2) \<le> x * (1 - 1 / 2 ^ 53)" by (intro mult_left_mono) simp_all
  moreover have "(1 / 2 ^ k) * (1 / 2) \<le> x * (1 / 2)" using assms(1) by simp
  ultimately show "1 / 2 ^ Suc k \<le> round_double x" using lo by simp
qed

lemma round_half_even_int: "round_half_even (of_int z) = z"
  by (rule round_half_even_near) simp

lemma round_double_exact:
  fixes k e :: int
  assumes k: "\<bar>k\<bar> < 2 ^ 53" and e: "- 1074 \<le> e"
  shows "round_double (of_int k * 2 powr of_int e) = of_int k * 2 powr of_int e"
proof (cases "k = 0")
  case True
  then show ?thesis by (simp add: round_double_0)
next
  case False
  define r :: real where "r = of_int k * 2 powr of_int e"
  define E where "E = \<lfloor>log 2 \<bar>r\<bar>\<rfloor>"
  have k1: "1 \<le> \<bar>real_of_int k\<bar>" using False by (simp flip: of_int_abs)
  have k53: "\<bar>real_of_int k\<bar> < 2 ^ 53"
    using k by (metis of_int_abs of_int_less_numeral_power_cancel_iff)
  have rabs: "\<bar>r\<bar> = \<bar>real_of_int k\<bar> * 2 powr of_int e" by (simp add: r_def abs_mult)
  have rpos: "0 < \<bar>r\<bar>" using k1 by (simp add: rabs)
  have "\<bar>r\<bar> < 2 ^ 53 * 2 powr of_int e"
    unfolding rabs using k53 by (intro mult_strict_right_mono) simp_all
  also have "\<dots> = 2 powr (of_int (52 + e) + 1)"
    by (simp add: powr_add)
  finally have up: "\<bar>r\<bar> < 2 powr (of_int (52 + e) + 1)" .
  have "E \<le> 52 + e"
  proof (rule ccontr)
    assume "\<not> E \<le> 52 + e"
    then have "52 + e + 1 \<le> E" by simp
    then have "real_of_int (52 + e) + 1 \<le> of_int E" by linarith
    then have "2 powr (of_int (52 + e) + 1) \<le> (2::real) powr of_int E"
      by (intro powr_mono) simp_all
    also have "\<dots> \<le> \<bar>r\<bar>"
      using floor_log_eq_powr_iff [of "\<bar>r\<bar>" 2 E] rpos by (simp add: E_def)
    finally show False using up by simp
  qed
  define t where "t = e - (max E (- 1022) - 52)"
  have t0: "0 \<le> t" using \<open>E \<le> 52 + e\<close> e by (simp add: t_def)
  define w :: real where "w = 2 powr of_int (e - t)"
  have wpos: "0 < w" by (simp add: w_def)
  have u: "ulp r = w"
    by (simp add: ulp_def E_def t_def w_def)
  have "2 powr of_int e = 2 powr of_int t * (2::real) powr of_int (e - t)"
    by (simp flip: powr_add)
  moreover have "(2::real) powr of_int t = 2 ^ nat t"
    using t0 by (simp add: powr_real_of_int)
  ultimately have split: "2 powr of_int e = 2 ^ nat t * w" by (simp add: w_def)
  have rw: "r = of_int (k * 2 ^ nat t) * w"
    by (simp add: r_def split)
  have q: "r / ulp r = of_int (k * 2 ^ nat t)"
    unfolding u using wpos by (subst rw) simp
  have "round_double r = of_int (k * 2 ^ nat t) * ulp r"
    unfolding round_double_def q round_half_even_int ..
  also have "\<dots> = r"
    unfolding u by (rule rw [symmetric])
  finally show ?thesis unfolding r_def .
qed

lemma single_precision_times:
  assumes "single_precision x" and "\<bar>c\<bar> \<le> 2 ^ 15"
  shows "round_double (x * of_int c) = x * of_int c"
proof -
  from assms(1) obtain m e where x: "x = of_int m * 2 powr of_int e"
    and m: "\<bar>m\<bar> < 2 ^ 24" and e: "- 149 \<le> e"
    unfolding single_precision_def by blast
  have "\<bar>m * c\<bar> = \<bar>m\<bar> * \<bar>c\<bar>" by (simp add: abs_mult)
  also have "\<dots> \<le> \<bar>m\<bar> * 2 ^ 15" using assms(2) by (intro mult_left_mono) simp_all
  also have "\<dots> < 2 ^ 24 * 2 ^ 15" using m by simp
  finally have mc: "\<bar>m * c\<bar> < 2 ^ 53" by simp
  have e': "- 1074 \<le> e" using e by simp
  have eq: "x * of_int c = of_int (m * c) * 2 powr of_int e" by (simp add: x)
  show ?thesis unfolding eq by (rule round_double_exact [OF mc e'])
qed

lemma single_precision_clamp:
  assumes "single_precision x"
  shows "single_precision (max (- 1) (min 1 x))"
proof -
  have one: "single_precision 1"
    unfolding single_precision_def by (rule exI [of _ 1], rule exI [of _ 0]) simp
  have mone: "single_precision (- 1)"
    unfolding single_precision_def by (rule exI [of _ "- 1"], rule exI [of _ 0]) simp
  show ?thesis
    using assms one mone by (simp add: max_def min_def)
qed

lemma scale_sample_exact:
  assumes "single_precision x"
  shows "rounded (scale_sample (clamp_sample (Num x))) = scale_sample (clamp_sample (Num x))"
proof -
  define s where "s = max (- 1) (min 1 x)"
  have sp: "single_precision s" unfolding s_def by (rule single_precision_clamp [OF assms])
  have a: "round_double (s * 32768) = s * 32768"
    using single_precision_times [OF sp, of 32768] by simp
  have b: "round_double (s * 32767) = s * 32767"
    using single_precision_times [OF sp, of 32767] by simp
  show ?thesis
    unfolding scale_clamp_Num Let_def s_def [symmetric] using a b by simp
qed

section \<open>Lemmas about the transform\<close>

lemma duration_Num:
  assumes "sampleRate b \<noteq> 0" and "real (length_frames b) / real (sampleRate b) \<le> 2 ^ 64"
  shows "duration b = Num (round_double (real (length_frames b) / real (sampleRate b)))"
proof -
  have "\<bar>real (length_frames b) / real (sampleRate b)\<bar> \<le> 2 ^ 64" using assms(2) by simp
  then show ?thesis using assms(1) by (simp add: duration_def dbl_small)
qed

text \<open>
  In the range of the sliders the three roundings keep the length argument within \<open>2\<close> to
  the \<open>-19\<close> of the exact quotient \<open>inputFrameCount / speedFactor\<close>.
\<close>

lemma offline_length_zero:
  assumes "sr \<noteq> 0" and "sampleRate b = sr" and "0 < s" and "length_frames b = 0"
  shows "rounded (js_mul (rounded (js_div (duration b) (Num s))) (Num (real sr))) = Num 0"
  using assms by (simp add: duration_def dbl_small round_double_0)

lemma offline_length_near:
  assumes sr: "sr \<noteq> 0" "sr < 2 ^ 32" and decode: "sampleRate b = sr"
    and s: "7 / 10 \<le> s" "s \<le> 13 / 10"
    and fits: "real (length_frames b) / s < 2 ^ 32"
  shows "\<exists>d. rounded (js_mul (rounded (js_div (duration b) (Num s))) (Num (real sr))) = Num d
           \<and> \<bar>d - real (length_frames b) / s\<bar> \<le> 1 / 2 ^ 19"
proof (cases "length_frames b = 0")
  case True
  have "0 < s" using s by simp
  from offline_length_zero [OF sr(1) decode this True] True show ?thesis by simp
next
  case False
  define N where "N = real (length_frames b)"
  define R where "R = real sr"
  define X where "X = N / s"
  define a where "a = N / R"
  define lo :: real where "lo = 1 - 1 / 2 ^ 53"
  define hi :: real where "hi = 1 + 1 / 2 ^ 53"
  define d1 where "d1 = round_double a"
  define q where "q = d1 / s"
  define d2 where "d2 = round_double q"
  define m where "m = d2 * R"
  define d3 where "d3 = round_double m"
  have spos: "0 < s" using s by simp
  have R1: "1 \<le> R" using sr by (simp add: R_def)
  have R32: "R \<le> 2 ^ 32"
  proof -
    have "real sr \<le> real (2 ^ 32 :: nat)" using sr(2) by (intro of_nat_mono) simp
    then show ?thesis by (simp add: R_def)
  qed
  have N1: "1 \<le> N" using False by (simp add: N_def)
  have X0: "0 \<le> X" using N1 spos by (simp add: X_def)
  have X32: "X < 2 ^ 32" using fits by (simp add: X_def N_def)
  have lohi: "0 \<le> lo" "lo \<le> 1" "1 \<le> hi" "hi \<le> 2"
    by (simp_all add: lo_def hi_def)
  have cube_hi: "hi * hi * hi \<le> 1 + 1 / 2 ^ 51" by (simp add: hi_def)
  have cube_lo: "1 - 1 / 2 ^ 51 \<le> lo * lo * lo" by (simp add: lo_def)
  have XR: "a / s = X / R" by (simp add: a_def X_def)
  have XR_le: "X / R \<le> X" using divide_left_mono [of 1 R X] R1 X0 by simp
  have a_lo: "1 / 2 ^ 32 \<le> a"
  proof -
    have "1 / R \<le> N / R" using R1 N1 by (intro divide_right_mono) simp_all
    moreover have "1 / 2 ^ 32 \<le> 1 / R" using R1 R32 by (intro divide_left_mono) simp_all
    ultimately show ?thesis unfolding a_def by linarith
  qed
  have a_hi: "a \<le> 2 ^ 33"
  proof -
    have "N / R \<le> N / 1" using R1 N1 by (intro divide_left_mono) simp_all
    moreover have "N = X * s" using spos by (simp add: X_def)
    moreover have "X * s \<le> 2 ^ 32 * (13 / 10)" using X0 X32 s by (intro mult_mono) simp_all
    ultimately show ?thesis unfolding a_def by simp
  qed
  have dur: "duration b = Num d1"
  proof -
    have "sampleRate b \<noteq> 0" using sr decode by simp
    moreover have "real (length_frames b) / real (sampleRate b) \<le> 2 ^ 64"
      using a_hi by (simp add: a_def N_def R_def decode)
    ultimately show ?thesis
      unfolding d1_def a_def N_def R_def decode [symmetric] by (rule duration_Num)
  qed
  have k: "(32::nat) \<le> 64" "(34::nat) \<le> 64" "(35::nat) \<le> 64" by simp_all
  note b1 = round_double_pos [OF a_lo k(1), folded d1_def lo_def hi_def]
  have d1_lo: "1 / 2 ^ 33 \<le> d1" using b1(3) by simp
  have d1_0: "0 \<le> d1" using d1_lo by (rule order_trans [rotated]) simp
  have q_lo: "1 / 2 ^ 34 \<le> q"
  proof -
    have "1 / 2 ^ 34 \<le> d1 / 2" using d1_lo by simp
    also have "d1 / 2 \<le> d1 / s" using d1_0 spos s by (intro divide_left_mono) simp_all
    finally show ?thesis unfolding q_def .
  qed
  have q_up: "q \<le> X / R * hi"
  proof -
    have "d1 / s \<le> a * hi / s" using b1(2) spos by (intro divide_right_mono) simp_all
    then show ?thesis by (simp add: q_def XR [symmetric])
  qed
  have q_dn: "X / R * lo \<le> q"
  proof -
    have "a * lo / s \<le> d1 / s" using b1(1) spos by (intro divide_right_mono) simp_all
    then show ?thesis by (simp add: q_def XR [symmetric])
  qed
  have q64: "\<bar>q\<bar> \<le> 2 ^ 64"
  proof -
    have "X / R * hi \<le> X * 2" using XR_le lohi X0 by (intro mult_mono) simp_all
    with q_up X32 q_lo show ?thesis by simp
  qed
  have div: "rounded (js_div (duration b) (Num s)) = Num d2"
    using spos q64 by (simp add: dur dbl_small d2_def q_def)
  note b2 = round_double_pos [OF q_lo k(2), folded d2_def lo_def hi_def]
  have d2_lo: "1 / 2 ^ 35 \<le> d2" using b2(3) by simp
  have d2_0: "0 \<le> d2" using d2_lo by (rule order_trans [rotated]) simp
  have m_lo: "1 / 2 ^ 35 \<le> m"
  proof -
    have "1 / 2 ^ 35 \<le> d2 * 1" using d2_lo by simp
    also have "d2 * 1 \<le> d2 * R" using d2_0 R1 by (intro mult_left_mono) simp_all
    finally show ?thesis unfolding m_def .
  qed
  have Rpos: "0 < R" using R1 by simp
  have m_up: "m \<le> X * (hi * hi)"
  proof -
    have "q * hi \<le> X / R * hi * hi" using q_up lohi by (intro mult_right_mono) simp_all
    with b2(2) have "d2 \<le> X / R * hi * hi" by (rule order_trans)
    then have "d2 * R \<le> X / R * hi * hi * R" using Rpos by (intro mult_right_mono) simp_all
    then show ?thesis using Rpos by (simp add: m_def)
  qed
  have m_dn: "X * (lo * lo) \<le> m"
  proof -
    have "X / R * lo * lo \<le> q * lo" using q_dn lohi by (intro mult_right_mono) simp_all
    then have "X / R * lo * lo \<le> d2" using b2(1) by (rule order_trans)
    then have "X / R * lo * lo * R \<le> d2 * R" using Rpos by (intro mult_right_mono) simp_all
    then show ?thesis using Rpos by (simp add: m_def)
  qed
  have m64: "\<bar>m\<bar> \<le> 2 ^ 64"
  proof -
    have "hi * hi \<le> 2 * 2" using lohi by (intro mult_mono) simp_all
    then have "X * (hi * hi) \<le> X * 4" using X0 by (intro mult_left_mono) simp_all
    with m_up X32 m_lo show ?thesis by simp
  qed
  have mul: "rounded (js_mul (rounded (js_div (duration b) (Num s))) (Num (real sr))) = Num d3"
    unfolding div using m64 by (simp add: dbl_small d3_def m_def R_def)
  note b3 = round_double_pos [OF m_lo k(3), folded d3_def lo_def hi_def]
  have "m * hi \<le> X * (hi * hi) * hi" using m_up lohi by (intro mult_right_mono) simp_all
  with b3(2) have "d3 \<le> X * (hi * hi) * hi" by (rule order_trans)
  also have "\<dots> = X * (hi * hi * hi)" by simp
  also have "\<dots> \<le> X * (1 + 1 / 2 ^ 51)" using cube_hi X0 by (intro mult_left_mono) simp_all
  finally have up: "d3 - X \<le> X / 2 ^ 51" by (simp add: algebra_simps)
  have "X * (1 - 1 / 2 ^ 51) \<le> X * (lo * lo * lo)" using cube_lo X0 by (intro mult_left_mono) simp_all
  also have "\<dots> = X * (lo * lo) * lo" by simp
  also have "\<dots> \<le> m * lo" using m_dn lohi by (intro mult_right_mono) simp_all
  also have "\<dots> \<le> d3" by (rule b3(1))
  finally have dn: "X - d3 \<le> X / 2 ^ 51" by (simp add: algebra_simps)
  have "X / 2 ^ 51 \<le> 2 ^ 32 / 2 ^ 51" using X32 by (intro divide_right_mono) simp_all
  then have "X / 2 ^ 51 \<le> 1 / 2 ^ 19" by simp
  with up dn have "\<bar>d3 - X\<bar> \<le> 1 / 2 ^ 19" by linarith
  with mul show ?thesis by (auto simp: X_def N_def)
qed

lemma set_frequency_3000: "set_AudioParam_value (Num 3000) = Inr 3000"
  using float_overflow_big by (simp add: set_AudioParam_value_def)

lemma audioBufferToWav_total: "\<exists>bs. audioBufferToWav b = Inr bs"
  by (simp add: audioBufferToWav_bytes)

lemma set_AudioParam_value_Inr:
  "set_AudioParam_value v = Inr r \<Longrightarrow> v = Num r"
  by (auto simp: set_AudioParam_value_def split: js_number.splits if_splits)

lemma build_graph_Inr:
  assumes "build_graph b sr p s = Inr g"
  shows "graph_context g =
           \<lparr>oc_numberOfChannels = numberOfChannels b,
            oc_length = ToUint32 (rounded (js_mul (rounded (js_div (duration b) (Num s))) (Num (real sr)))),
            oc_sampleRate = sr\<rparr>
         \<and> numberOfChannels b \<noteq> 0 \<and> sr \<noteq> 0
         \<and> ToUint32 (rounded (js_mul (rounded (js_div (duration b) (Num s))) (Num (real sr)))) \<noteq> 0
         \<and> js_mul (Num s) (Math_pow2 (js_div (Num p) (Num 12))) = Num (source_playbackRate g)
         \<and> source_buffer g = b \<and> filter_type g = ''lowpass'' \<and> filter_frequency g = 3000"
proof -
  let ?L = "rounded (js_mul (rounded (js_div (duration b) (Num s))) (Num (real sr)))"
  from assms obtain oc rate freq where
    oc: "new_OfflineAudioContext (numberOfChannels b) ?L sr = Inr oc"
    and rate: "set_AudioParam_value (js_mul (Num s) (Math_pow2 (js_div (Num p) (Num 12)))) = Inr rate"
    and freq: "set_AudioParam_value (Num 3000) = Inr freq"
    and g: "g = \<lparr>graph_context = oc, source_buffer = b, source_playbackRate = rate,
                filter_type = ''lowpass'', filter_frequency = freq\<rparr>"
    by (auto simp: build_graph_def Let_def bind_js_def split: sum.splits)
  from oc have "oc = \<lparr>oc_numberOfChannels = numberOfChannels b,
            oc_length = ToUint32 ?L, oc_sampleRate = sr\<rparr>"
    and "numberOfChannels b \<noteq> 0" and "sr \<noteq> 0" and "ToUint32 ?L \<noteq> 0"
    by (auto simp: new_OfflineAudioContext_def split: if_splits)
  moreover from freq have "freq = 3000"
    by (simp add: set_frequency_3000)
  moreover note set_AudioParam_value_Inr [OF rate]
  ultimately show ?thesis by (simp add: g)
qed

lemma build_graph_zero_length:
  assumes "ToUint32 (rounded (js_mul (rounded (js_div (duration b) (Num s))) (Num (real sr)))) = 0"
  shows "build_graph b sr p s = Inl NotSupportedError"
  using assms by (simp add: build_graph_def Let_def new_OfflineAudioContext_def bind_js_def)

lemma build_graph_accepted:
  assumes "numberOfChannels b \<noteq> 0" and "sr \<noteq> 0"
    and "ToUint32 (rounded (js_mul (rounded (js_div (duration b) (Num s))) (Num (real sr)))) \<noteq> 0"
    and "js_mul (Num s) (Math_pow2 (js_div (Num p) (Num 12))) = Num r"
    and "\<bar>r\<bar> < float_overflow"
  shows "build_graph b sr p s =
           Inr \<lparr>graph_context =
                  \<lparr>oc_numberOfChannels = numberOfChannels b,
                   oc_length = ToUint32 (rounded (js_mul (rounded (js_div (duration b) (Num s))) (Num (real sr)))),
                   oc_sampleRate = sr\<rparr>,
                source_buffer = b, source_playbackRate = r,
                filter_type = ''lowpass'', filter_frequency = 3000\<rparr>"
proof -
  let ?L = "rounded (js_mul (rounded (js_div (duration b) (Num s))) (Num (real sr)))"
  have oc: "new_OfflineAudioContext (numberOfChannels b) ?L sr
            = Inr \<lparr>oc_numberOfChannels = numberOfChannels b, oc_length = ToUint32 ?L, oc_sampleRate = sr\<rparr>"
    using assms(1-3) by (simp add: new_OfflineAudioContext_def)
  have rate: "set_AudioParam_value (Num r) = Inr r"
    using assms(5) by (simp add: set_AudioParam_value_def)
  show ?thesis
    unfolding build_graph_def Let_def oc assms(4) rate set_frequency_3000
    by (simp add: bind_js_def)
qed

lemma pow2_finite:
  assumes "\<bar>p\<bar> < 12 * double_overflow"
    and "js_mul (Num s) (Math_pow2 (js_div (Num p) (Num 12))) = Num r"
  shows "r = s * 2 powr (p / 12)"
proof -
  from assms(1) have "\<bar>p / 12\<bar> < double_overflow" by simp
  then have d: "js_div (Num p) (Num 12) = Num (p / 12)"
    by (simp add: dbl_Num)
  show ?thesis
  proof (cases "2 powr (p / 12)" rule: dbl_cases)
    case fin
    with assms(2) d have m: "dbl (s * 2 powr (p / 12)) = Num r" by simp
    then show ?thesis
      by (cases "s * 2 powr (p / 12)" rule: dbl_cases) simp_all
  next
    case pinf
    with assms(2) d show ?thesis by (simp split: if_splits)
  next
    case ninf
    with assms(2) d show ?thesis by (simp split: if_splits)
  qed
qed

lemma ToUint32_floor:
  assumes "0 \<le> x" and "x < 2 ^ 32"
  shows "ToUint32 (Num x) = nat \<lfloor>x\<rfloor>"
proof -
  have "0 \<le> \<lfloor>x\<rfloor>" using assms by simp
  moreover have "\<lfloor>x\<rfloor> < 2 ^ 32" using assms by (simp add: floor_less_iff)
  ultimately show ?thesis using assms by (simp add: js_trunc_def)
qed

lemma ToUint32_near_round:
  assumes x: "0 \<le> x" "x < 2 ^ 32 - 1" and d: "\<bar>d - x\<bar> < 1 / 2"
  shows "int (ToUint32 (Num d)) = round x \<or> int (ToUint32 (Num d)) = round x - 1"
proof (cases "d < 0")
  case True
  with d x have "x < 1 / 2" and "- 1 < d" by linarith+
  then have "round x = 0" using x by (simp add: round_def) linarith
  moreover have "js_trunc d = 0"
    using True \<open>- 1 < d\<close> by (simp add: js_trunc_def) linarith
  ultimately show ?thesis by simp
next
  case False
  then have d0: "0 \<le> d" by simp
  from d x have dlt: "d < 2 ^ 32" by linarith
  have t: "int (ToUint32 (Num d)) = \<lfloor>d\<rfloor>"
    using ToUint32_floor [OF d0 dlt] d0 by simp
  have "\<lfloor>d\<rfloor> \<le> round x" and "round x - 1 \<le> \<lfloor>d\<rfloor>"
    using d unfolding round_def by linarith+
  with t show ?thesis by linarith
qed

lemma header_channels:
  assumes "numberOfChannels b < 65536"
  shows "getUint16 (header_bytes b @ rest) 22 = numberOfChannels b"
  using assms
  by (simp add: header_bytes_def getUint16_skip getUint32_skip getUint16_here unat_of_nat
      del: of_nat_mult)

lemma header_rate:
  assumes "sampleRate b < 4294967296"
  shows "getUint32 (header_bytes b @ rest) 24 = sampleRate b"
  using assms
  by (simp add: header_bytes_def getUint16_skip getUint32_skip getUint32_here unat_of_nat
      del: of_nat_mult)

lemma pow2_semitones:
  fixes p :: real
  assumes "- 12 \<le> p" and "p \<le> 12"
  shows "1 / 2 \<le> 2 powr (p / 12)" and "2 powr (p / 12) \<le> 2"
proof -
  have "2 powr (- 1) \<le> (2::real) powr (p / 12)"
    using assms by (intro powr_mono) simp_all
  then show "1 / 2 \<le> 2 powr (p / 12)" by (simp add: powr_minus_divide)
  have "(2::real) powr (p / 12) \<le> 2 powr 1"
    using assms by (intro powr_mono) simp_all
  then show "2 powr (p / 12) \<le> 2" by simp
qed

lemma combined_rate_supported:
  assumes "- 12 \<le> p" and "p \<le> 12" and "7 / 10 \<le> s" and "s \<le> 13 / 10"
  shows "js_mul (Num s) (Math_pow2 (js_div (Num p) (Num 12))) = Num (s * 2 powr (p / 12))"
    and "\<bar>s * 2 powr (p / 12)\<bar> < float_overflow"
proof -
  have "\<bar>p / 12\<bar> \<le> 2 ^ 64" using assms by (simp add: abs_le_iff)
  then have d: "js_div (Num p) (Num 12) = Num (p / 12)" by (simp add: dbl_small)
  note b = pow2_semitones [OF assms(1,2)]
  from b have "\<bar>2 powr (p / 12)\<bar> \<le> 2 ^ 64" by simp
  then have pw: "Math_pow2 (Num (p / 12)) = Num (2 powr (p / 12))" by (simp add: dbl_small)
  have r0: "0 \<le> s * 2 powr (p / 12)" using assms by simp
  have "s * 2 powr (p / 12) \<le> (13 / 10) * 2"
    using assms b by (intro mult_mono) simp_all
  then have r1: "s * 2 powr (p / 12) \<le> 2 ^ 64" by simp
  from r0 r1 have "\<bar>s * 2 powr (p / 12)\<bar> \<le> 2 ^ 64" by simp
  then have m: "dbl (s * 2 powr (p / 12)) = Num (s * 2 powr (p / 12))" by (rule dbl_small)
  show "js_mul (Num s) (Math_pow2 (js_div (Num p) (Num 12))) = Num (s * 2 powr (p / 12))"
    unfolding d pw using m by simp
  from r0 r1 float_overflow_big show "\<bar>s * 2 powr (p / 12)\<bar> < float_overflow" by simp
qed

text \<open>
  In the range of the sliders, for a decoded buffer of at least two frames, the graph is built,
  and its frame count is within one of the rounded quotient.
\<close>

lemma build_graph_supported:
  assumes ch: "numberOfChannels b \<noteq> 0" and sr: "sr \<noteq> 0" "sr < 2 ^ 32"
    and decode: "sampleRate b = sr"
    and p: "- 12 \<le> p" "p \<le> 12" and s: "7 / 10 \<le> s" "s \<le> 13 / 10"
    and two: "2 \<le> length_frames b"
    and fits: "real (length_frames b) / s < 2 ^ 32 - 1"
  shows "\<exists>n. build_graph b sr p s =
           Inr \<lparr>graph_context =
                  \<lparr>oc_numberOfChannels = numberOfChannels b, oc_length = n, oc_sampleRate = sr\<rparr>,
                source_buffer = b, source_playbackRate = s * 2 powr (p / 12),
                filter_type = ''lowpass'', filter_frequency = 3000\<rparr>
           \<and> n \<noteq> 0 \<and> \<bar>real n - real (length_frames b) / s\<bar> < 1 + 1 / 2 ^ 19"
proof -
  let ?X = "real (length_frames b) / s"
  let ?L = "rounded (js_mul (rounded (js_div (duration b) (Num s))) (Num (real sr)))"
  have spos: "0 < s" using s by simp
  have fits': "?X < 2 ^ 32" using fits by simp
  from offline_length_near [OF sr decode s fits'] obtain d
    where L: "?L = Num d" and d19: "\<bar>d - ?X\<bar> \<le> 1 / 2 ^ 19" by blast
  have "(1::real) / 2 ^ 19 = 1 / 524288" by simp
  with d19 have d: "\<bar>d - ?X\<bar> \<le> 1 / 524288" by (simp only:)
  have "2 / (13 / 10) \<le> ?X"
    using two s spos by (intro frac_le) simp_all
  then have X1: "3 / 2 \<le> ?X" by simp
  have d1: "1 \<le> d" using d X1 by linarith
  have "?X < 4294967295" using fits by simp
  with d have "d < 4294967296" by linarith
  then have d32: "d < 2 ^ 32" by simp
  have n: "ToUint32 (Num d) = nat \<lfloor>d\<rfloor>" using d1 d32 by (intro ToUint32_floor) simp_all
  have f1: "1 \<le> \<lfloor>d\<rfloor>" using d1 by (simp add: le_floor_iff)
  then have nz: "ToUint32 ?L \<noteq> 0" unfolding L n by simp
  have "real (nat \<lfloor>d\<rfloor>) = of_int \<lfloor>d\<rfloor>" using f1 by simp
  then have "\<bar>real (nat \<lfloor>d\<rfloor>) - d\<bar> < 1" by linarith
  with d have "\<bar>real (nat \<lfloor>d\<rfloor>) - ?X\<bar> < 1 + 1 / 524288" by linarith
  then have near: "\<bar>real (ToUint32 ?L) - ?X\<bar> < 1 + 1 / 2 ^ 19"
    unfolding L n by simp
  note r = combined_rate_supported [OF p s]
  from build_graph_accepted [OF ch sr(1) nz r] nz near show ?thesis by blast
qed

lemma renderedBuffer_Inr:
  assumes "renderedBuffer signal b sr p s = Inr rb"
  obtains g where "build_graph b sr p s = Inr g" and "rb = startRendering signal g"
  using assms by (auto simp: renderedBuffer_def bind_js_def split: sum.splits)

lemma numberOfChannels_startRendering:
  "numberOfChannels (startRendering signal g) = oc_numberOfChannels (graph_context g)"
  by (simp add: startRendering_def numberOfChannels_def)

text \<open>
  The length argument at a concrete input, from the three roundings of the code: the duration,
  the quotient by the playback rate, the product with the sample rate.
\<close>

lemma offline_length_eval:
  assumes "sampleRate b = sr" and "sr \<noteq> 0" and "s \<noteq> 0"
    and "round_double (real (length_frames b) / real sr) = d1"
    and "round_double (d1 / s) = d2"
    and "round_double (d2 * real sr) = d3"
    and "\<bar>real (length_frames b) / real sr\<bar> \<le> 2 ^ 64" and "\<bar>d1 / s\<bar> \<le> 2 ^ 64"
    and "\<bar>d2 * real sr\<bar> \<le> 2 ^ 64"
  shows "duration b = Num d1"
    and "rounded (js_mul (rounded (js_div (duration b) (Num s))) (Num (real sr))) = Num d3"
proof -
  show dur: "duration b = Num d1"
    using assms(1,2,4,7) by (simp add: duration_def dbl_small)
  have "rounded (js_div (duration b) (Num s)) = Num d2"
    using assms(3,5,8) by (simp add: dur dbl_small)
  then show "rounded (js_mul (rounded (js_div (duration b) (Num s))) (Num (real sr))) = Num d3"
    using assms(6,9) by (simp add: dbl_small)
qed

lemma duration_mono23: "round_double (23 / 8000) = 6629298651489370 / 2 ^ 61"
  using round_double_eval [of 61 "23 / 8000" 6629298651489370] by simp

lemma offline_length_mono23_speed1:
  "rounded (js_mul (rounded (js_div (duration mono23) (Num 1))) (Num 8000)) = Num 23"
proof -
  have e2: "round_double (6629298651489370 / 2 ^ 61 / 1) = 6629298651489370 / 2 ^ 61"
    using round_double_eval [of 61 "6629298651489370 / 2 ^ 61" 6629298651489370] by simp
  have e3: "round_double (6629298651489370 / 2 ^ 61 * real 8000) = 23"
    using round_double_eval [of 48 "6629298651489370 / 2 ^ 61 * 8000" 6473924464345088] by simp
  from offline_length_eval(2) [of mono23 8000 1, OF _ _ _ _ e2 e3] duration_mono23
  show ?thesis by (simp add: mono23_def)
qed

lemma offline_length_mono23_speed2:
  "rounded (js_mul (rounded (js_div (duration mono23) (Num 2))) (Num 8000)) = Num (23 / 2)"
proof -
  have e2: "round_double (6629298651489370 / 2 ^ 61 / 2) = 6629298651489370 / 2 ^ 62"
    using round_double_eval [of 62 "6629298651489370 / 2 ^ 61 / 2" 6629298651489370] by simp
  have e3: "round_double (6629298651489370 / 2 ^ 62 * real 8000) = 23 / 2"
    using round_double_eval [of 49 "6629298651489370 / 2 ^ 62 * 8000" 6473924464345088] by simp
  from offline_length_eval(2) [of mono23 8000 2, OF _ _ _ _ e2 e3] duration_mono23
  show ?thesis by (simp add: mono23_def)
qed

lemma duration_mono23_44k: "round_double (23 / 44100) = 4810375438722445 / 2 ^ 63"
  using round_double_eval [of 63 "23 / 44100" 4810375438722445] by simp

lemma offline_length_mono23_44k_speed1:
  "rounded (js_mul (rounded (js_div (duration mono23_44k) (Num 1))) (Num 44100))
     = Num (6473924464345087 / 2 ^ 48)"
proof -
  have e2: "round_double (4810375438722445 / 2 ^ 63 / 1) = 4810375438722445 / 2 ^ 63"
    using round_double_eval [of 63 "4810375438722445 / 2 ^ 63" 4810375438722445] by simp
  have e3: "round_double (4810375438722445 / 2 ^ 63 * real 44100) = 6473924464345087 / 2 ^ 48"
    using round_double_eval [of 48 "4810375438722445 / 2 ^ 63 * 44100" 6473924464345087] by simp
  from offline_length_eval(2) [of mono23_44k 44100 1, OF _ _ _ _ e2 e3] duration_mono23_44k
  show ?thesis by (simp add: mono23_44k_def)
qed

lemma offline_length_mono23_44k_speed23:
  "rounded (js_mul (rounded (js_div (duration mono23_44k) (Num 23))) (Num 44100))
     = Num (9007199254740991 / 2 ^ 53)"
proof -
  have e2: "round_double (4810375438722445 / 2 ^ 63 / 23) = 6692696262570358 / 2 ^ 68"
    using round_double_eval [of 68 "4810375438722445 / 2 ^ 63 / 23" 6692696262570358] by simp
  have e3: "round_double (6692696262570358 / 2 ^ 68 * real 44100) = 9007199254740991 / 2 ^ 53"
    using round_double_eval [of 53 "6692696262570358 / 2 ^ 68 * 44100" 9007199254740991] by simp
  from offline_length_eval(2) [of mono23_44k 44100 23, OF _ _ _ _ e2 e3] duration_mono23_44k
  show ?thesis by (simp add: mono23_44k_def)
qed

text \<open>
  The frame count is not the integer part of the exact quotient: at the default speed 1.0 the
  23 frames at 44100 Hz come back as \<open>22.999999999999996\<close>, and 22 frames are rendered.
\<close>

lemma default_speed_loses_a_frame:
  "build_graph mono23_44k 44100 0 1 =
     Inr \<lparr>graph_context = \<lparr>oc_numberOfChannels = 1, oc_length = 22, oc_sampleRate = 44100\<rparr>,
          source_buffer = mono23_44k, source_playbackRate = 1,
          filter_type = ''lowpass'', filter_frequency = 3000\<rparr>"
proof -
  let ?L = "rounded (js_mul (rounded (js_div (duration mono23_44k) (Num 1))) (Num (real (44100::nat))))"
  have L: "?L = Num (6473924464345087 / 2 ^ 48)"
    using offline_length_mono23_44k_speed1 by simp
  have n: "ToUint32 ?L = 22"
    unfolding L by (simp add: js_trunc_def)
  have nz: "ToUint32 ?L \<noteq> 0" unfolding n by simp
  have c: "numberOfChannels mono23_44k = 1" by (simp add: mono23_44k_def numberOfChannels_def)
  have cz: "numberOfChannels mono23_44k \<noteq> 0" unfolding c by simp
  have r: "js_mul (Num 1) (Math_pow2 (js_div (Num 0) (Num 12))) = Num 1"
    by (simp add: dbl_small)
  have f: "\<bar>1::real\<bar> < float_overflow" using float_overflow_big by simp
  have sz: "(44100::nat) \<noteq> 0" by simp
  show ?thesis
    using build_graph_accepted [OF cz sz nz r f] unfolding n c .
qed

text \<open>
  Inside the range of the sliders the constructor throws as well when the input is shorter than
  the speed factor: one frame at speed 1.3 gives a frame count of 0.
\<close>

lemma one_frame_input_throws:
  "transformAudio silent \<lparr>sampleRate = 8000, length_frames = 1, channelData = [[Num 1]]\<rparr>
     8000 0 (13 / 10) = Inl NotSupportedError"
proof -
  let ?b = "\<lparr>sampleRate = 8000, length_frames = 1, channelData = [[Num 1]]\<rparr>"
  let ?L = "rounded (js_mul (rounded (js_div (duration ?b) (Num (13 / 10)))) (Num (real (8000::nat))))"
  have "\<exists>d. ?L = Num d \<and> \<bar>d - real (length_frames ?b) / (13 / 10)\<bar> \<le> 1 / 2 ^ 19"
    by (rule offline_length_near) simp_all
  then obtain d where L: "?L = Num d" and d19: "\<bar>d - 10 / 13\<bar> \<le> 1 / 2 ^ 19" by auto
  have "(1::real) / 2 ^ 19 = 1 / 524288" by simp
  with d19 have d: "\<bar>d - 10 / 13\<bar> \<le> 1 / 524288" by (simp only:)
  from d have "0 \<le> d" and "d < 1" by linarith+
  then have "\<lfloor>d\<rfloor> = 0" by linarith
  then have "ToUint32 (Num d) = 0" using \<open>0 \<le> d\<close> by (simp add: js_trunc_def)
  then have "ToUint32 ?L = 0" unfolding L .
  from build_graph_zero_length [OF this]
  show ?thesis by (simp add: transformAudio_def renderedBuffer_def bind_js_def)
qed

lemma header_sizes:
  assumes "wav_length b - 8 < 4294967296"
  shows "getUint32 (header_bytes b @ rest) 4 = wav_length b - 8"
    and "getUint32 (header_bytes b @ rest) 40 = wav_length b - 44"
proof -
  from assms have dl: "wav_length b - 44 < 4294967296" by simp
  show "getUint32 (header_bytes b @ rest) 4 = wav_length b - 8"
    using assms
    by (simp add: header_bytes_def getUint16_skip getUint32_skip getUint32_here unat_of_nat
        del: of_nat_mult)
  show "getUint32 (header_bytes b @ rest) 40 = wav_length b - 44"
    using dl
    by (simp add: header_bytes_def getUint16_skip getUint32_skip getUint32_here unat_of_nat
        del: of_nat_mult)
qed

lemma offline_length_mono23_slow:
  "ToUint32 (rounded (js_mul (rounded (js_div (duration mono23) (Num (3 / 4)))) (Num 8000))) = 30"
proof -
  let ?L = "rounded (js_mul (rounded (js_div (duration mono23) (Num (3 / 4)))) (Num (real (8000::nat))))"
  have "\<exists>d. ?L = Num d \<and> \<bar>d - real (length_frames mono23) / (3 / 4)\<bar> \<le> 1 / 2 ^ 19"
    by (rule offline_length_near) (simp_all add: mono23_def)
  then obtain d where L: "?L = Num d" and d19: "\<bar>d - 92 / 3\<bar> \<le> 1 / 2 ^ 19"
    by (auto simp: mono23_def)
  have "(1::real) / 2 ^ 19 = 1 / 524288" by simp
  with d19 have d: "\<bar>d - 92 / 3\<bar> \<le> 1 / 524288" by (simp only:)
  from d have "30 \<le> d" and "d < 31" by linarith+
  then have "\<lfloor>d\<rfloor> = 30" by linarith
  then have "ToUint32 (Num d) = 30" using \<open>30 \<le> d\<close> by (simp add: js_trunc_def)
  then have "ToUint32 ?L = 30" unfolding L .
  then show ?thesis by simp
qed

section \<open>The encoder: claims\<close>

text \<open>
  Claim C1 says that the data section, from byte 44 on, holds the 16-bit value of every frame
  of every channel: bytes \<open>44 + (f * channelCount + c) * 2\<close> hold the quantized sample of channel
  \<open>c\<close> at frame \<open>f\<close>. The loop does not get there: it stops when \<^verbatim>\<open>pos\<close> reaches
  \<^verbatim>\<open>length - 44\<close>, and \<^verbatim>\<open>pos\<close> starts at 44, so the last \<open>22 div channelCount\<close> frames are
  never stored (lemmas \<open>audioBufferToWav_bytes\<close> and \<open>data_section_sample\<close>; the frames
  before them are stored as the claim says). On the mono buffer of 23 full-scale frames only
  frame 0 is stored: the bytes of frame 22 hold 0, where the quantized sample is 32767.
\<close>

theorem trailing_frames_not_encoded:
  "audioBufferToWav mono23 =
     Inr ([82, 73, 70, 70, 82, 0, 0, 0, 87, 65, 86, 69, 102, 109, 116, 32, 16, 0, 0, 0, 1, 0, 1, 0,
           64, 31, 0, 0, 128, 62, 0, 0, 2, 0, 16, 0, 100, 97, 116, 97, 46, 0, 0, 0]
          @ [255, 127] @ replicate 44 0)
   \<and> sint (pcm16 (typed_get (channelData mono23 ! 0) 22)) = 32767
   \<and> getInt16 ([82, 73, 70, 70, 82, 0, 0, 0, 87, 65, 86, 69, 102, 109, 116, 32, 16, 0, 0, 0, 1, 0, 1, 0,
           64, 31, 0, 0, 128, 62, 0, 0, 2, 0, 16, 0, 100, 97, 116, 97, 46, 0, 0, 0]
          @ [255, 127] @ replicate 44 0) (44 + (22 * 1 + 0) * 2) = 0"
proof (intro conjI)
  show "audioBufferToWav mono23 =
     Inr ([82, 73, 70, 70, 82, 0, 0, 0, 87, 65, 86, 69, 102, 109, 116, 32, 16, 0, 0, 0, 1, 0, 1, 0,
           64, 31, 0, 0, 128, 62, 0, 0, 2, 0, 16, 0, 100, 97, 116, 97, 46, 0, 0, 0]
          @ [255, 127] @ replicate 44 0)"
    by (simp add: audioBufferToWav_bytes header_bytes_def frames_written_def frame_bytes_def
        wav_length_def numberOfChannels_def mono23_def le32_def le16_def typed_get_def pcm16_def
        clamp_sample_def scale_sample_def dbl_small js_trunc_def)
  show "sint (pcm16 (typed_get (channelData mono23 ! 0) 22)) = 32767"
    by (simp add: mono23_def typed_get_def pcm16_def clamp_sample_def scale_sample_def dbl_small
        js_trunc_def)
  show "getInt16 ([82, 73, 70, 70, 82, 0, 0, 0, 87, 65, 86, 69, 102, 109, 116, 32, 16, 0, 0, 0, 1, 0, 1, 0,
           64, 31, 0, 0, 128, 62, 0, 0, 2, 0, 16, 0, 100, 97, 116, 97, 46, 0, 0, 0]
          @ [255, 127] @ replicate 44 0) (44 + (22 * 1 + 0) * 2) = 0"
    by (simp add: getInt16_def nth_append)
qed

text \<open>
  Claim C4: the container of a rendered buffer has \<open>frameCount * channelCount * 2 + 44\<close> bytes,
  and its header reads back the values it was written from: the channel count at offset 22, the
  sample rate at 24, the byte rate \<open>sr * 2 * channelCount\<close> at 28, the block align
  \<open>channelCount * 2\<close> at 32, 16 bits per sample at 34, the data size \<open>total - 44\<close> at 40 and
  the chunk size \<open>total - 8\<close> at 4. The buffer is any buffer whose values fit the 16-bit and
  32-bit fields of the format; the encoder never throws.
\<close>

theorem wav_header_roundtrip:
  assumes "fits_wav_fields b"
  shows "\<exists>bs. audioBufferToWav b = Inr bs
           \<and> length bs = length_frames b * numberOfChannels b * 2 + 44
           \<and> getUint16 bs 22 = numberOfChannels b
           \<and> getUint32 bs 24 = sampleRate b
           \<and> getUint32 bs 28 = sampleRate b * 2 * numberOfChannels b
           \<and> getUint16 bs 32 = numberOfChannels b * 2
           \<and> getUint16 bs 34 = 16
           \<and> getUint32 bs 40 = length bs - 44
           \<and> getUint32 bs 4 = length bs - 8"
proof -
  let ?rest = "concat (map (frame_bytes b) [0..<frames_written b])
          @ replicate (2 * numberOfChannels b * (length_frames b - frames_written b)) 0"
  let ?bs = "header_bytes b @ ?rest"
  have enc: "audioBufferToWav b = Inr ?bs"
    by (rule audioBufferToWav_bytes)
  have len: "length ?bs = wav_length b"
    by (rule length_audioBufferToWav [OF enc])
  from assms have c2: "numberOfChannels b * 2 < 65536" and sr: "sampleRate b < 4294967296"
    and br: "sampleRate b * 2 * numberOfChannels b < 4294967296"
    and tl: "wav_length b - 8 < 4294967296"
    by (simp_all add: fits_wav_fields_def)
  from c2 have c: "numberOfChannels b < 65536" by simp
  from tl have dl: "wav_length b - 44 < 4294967296" by simp
  have f22: "getUint16 ?bs 22 = numberOfChannels b"
    using c by (simp add: header_bytes_def getUint16_skip getUint32_skip getUint16_here unat_of_nat del: of_nat_mult)
  have f24: "getUint32 ?bs 24 = sampleRate b"
    using sr by (simp add: header_bytes_def getUint16_skip getUint32_skip getUint32_here unat_of_nat del: of_nat_mult)
  have f28: "getUint32 ?bs 28 = sampleRate b * 2 * numberOfChannels b"
    using br by (simp add: header_bytes_def getUint16_skip getUint32_skip getUint32_here unat_of_nat del: of_nat_mult)
  have f32: "getUint16 ?bs 32 = numberOfChannels b * 2"
    using c2 by (simp add: header_bytes_def getUint16_skip getUint32_skip getUint16_here unat_of_nat del: of_nat_mult)
  have f34: "getUint16 ?bs 34 = 16"
    by (simp add: header_bytes_def getUint16_skip getUint32_skip getUint16_here)
  have f40: "getUint32 ?bs 40 = wav_length b - 44"
    using dl by (simp add: header_bytes_def getUint16_skip getUint32_skip getUint32_here unat_of_nat del: of_nat_mult)
  have f4: "getUint32 ?bs 4 = wav_length b - 8"
    using tl by (simp add: header_bytes_def getUint16_skip getUint32_skip getUint32_here unat_of_nat del: of_nat_mult)
  show ?thesis
  proof (intro exI [of _ ?bs] conjI)
    show "audioBufferToWav b = Inr ?bs" by (rule enc)
    show "length ?bs = length_frames b * numberOfChannels b * 2 + 44"
      using len by (simp only: wav_length_def)
    show "getUint16 ?bs 22 = numberOfChannels b" by (rule f22)
    show "getUint32 ?bs 24 = sampleRate b" by (rule f24)
    show "getUint32 ?bs 28 = sampleRate b * 2 * numberOfChannels b" by (rule f28)
    show "getUint16 ?bs 32 = numberOfChannels b * 2" by (rule f32)
    show "getUint16 ?bs 34 = 16" by (rule f34)
    show "getUint32 ?bs 40 = length ?bs - 44" unfolding len by (rule f40)
    show "getUint32 ?bs 4 = length ?bs - 8" unfolding len by (rule f4)
  qed
qed

theorem wav_header_roundtrip_witness:
  "fits_wav_fields stereo12
   \<and> (\<exists>bs. audioBufferToWav stereo12 = Inr bs \<and> length bs = 92
          \<and> getUint16 bs 22 = 2 \<and> getUint32 bs 24 = 44100 \<and> getUint32 bs 28 = 176400
          \<and> getUint16 bs 32 = 4 \<and> getUint16 bs 34 = 16
          \<and> getUint32 bs 40 = 48 \<and> getUint32 bs 4 = 84)"
proof -
  have h: "fits_wav_fields stereo12"
    by (simp add: fits_wav_fields_def stereo12_def numberOfChannels_def wav_length_def)
  from wav_header_roundtrip [OF h] obtain bs where
    "audioBufferToWav stereo12 = Inr bs"
    "length bs = length_frames stereo12 * numberOfChannels stereo12 * 2 + 44"
    "getUint16 bs 22 = numberOfChannels stereo12"
    "getUint32 bs 24 = sampleRate stereo12"
    "getUint32 bs 28 = sampleRate stereo12 * 2 * numberOfChannels stereo12"
    "getUint16 bs 32 = numberOfChannels stereo12 * 2"
    "getUint16 bs 34 = 16"
    "getUint32 bs 40 = length bs - 44"
    "getUint32 bs 4 = length bs - 8"
    by blast
  then have "audioBufferToWav stereo12 = Inr bs \<and> length bs = 92
          \<and> getUint16 bs 22 = 2 \<and> getUint32 bs 24 = 44100 \<and> getUint32 bs 28 = 176400
          \<and> getUint16 bs 32 = 4 \<and> getUint16 bs 34 = 16
          \<and> getUint32 bs 40 = 48 \<and> getUint32 bs 4 = 84"
    by (simp add: stereo12_def numberOfChannels_def)
  with h show ?thesis by blast
qed

text \<open>
  Claim C7: a sample of exactly \<open>1\<close> is stored as 32767 and one of exactly \<open>-1\<close> as
  \<open>-32768\<close>; a sample beyond \<open>[-1, 1]\<close> (an infinity included) is first clamped to the bound
  on its side and is then stored as that bound's value, neither wrapped nor rescaled. The
  statement is about the container: \<open>bs\<close> is what \<^verbatim>\<open>audioBufferToWav\<close> returns, the sample is
  the one of channel \<open>c\<close> at a frame \<open>f\<close> that the loop writes, and the value is what a
  parser reads at the position of that sample in the data section. A frame the loop never
  reaches is not written at all, whatever its samples; the statement does not speak of it.
\<close>

theorem clamp_before_quantization:
  assumes enc: "audioBufferToWav b = Inr bs"
    and c: "c < numberOfChannels b" and f: "f < frames_written b"
  shows "getInt16 bs (44 + (f * numberOfChannels b + c) * 2)
           = sint (ToInt16 (scale_sample (clamp_sample (typed_get (channelData b ! c) f))))
       \<and> (typed_get (channelData b ! c) f = Num 1 \<longrightarrow>
            getInt16 bs (44 + (f * numberOfChannels b + c) * 2) = 32767)
       \<and> (typed_get (channelData b ! c) f = Num (- 1) \<longrightarrow>
            getInt16 bs (44 + (f * numberOfChannels b + c) * 2) = - 32768)
       \<and> (js_less (Num 1) (typed_get (channelData b ! c) f) \<longrightarrow>
            clamp_sample (typed_get (channelData b ! c) f) = Num 1
            \<and> getInt16 bs (44 + (f * numberOfChannels b + c) * 2) = 32767)
       \<and> (js_less (typed_get (channelData b ! c) f) (Num (- 1)) \<longrightarrow>
            clamp_sample (typed_get (channelData b ! c) f) = Num (- 1)
            \<and> getInt16 bs (44 + (f * numberOfChannels b + c) * 2) = - 32768)"
proof -
  define v where "v = typed_get (channelData b ! c) f"
  define r where "r = getInt16 bs (44 + (f * numberOfChannels b + c) * 2)"
  have fl: "f < length_frames b"
    using f frames_written_le [of b] by simp
  have r: "r = sint (pcm16 v)"
    using data_section_sample [OF c fl enc] f by (simp add: r_def v_def)
  have one: "sint (pcm16 (Num 1)) = 32767"
    by (simp add: pcm16_Num quantized_def js_trunc_def)
  have mone: "sint (pcm16 (Num (- 1))) = - 32768"
    by (simp add: pcm16_Num quantized_def js_trunc_def)
  have hi: "clamp_sample v = Num 1 \<and> r = 32767" if "js_less (Num 1) v"
  proof (cases v)
    case (Num x)
    with that have "1 < x" by simp
    then show ?thesis
      unfolding r Num by (simp add: clamp_Num pcm16_Num quantized_def js_trunc_def)
  next
    case PosInf
    then show ?thesis
      unfolding r using one by (simp add: pcm16_def clamp_sample_def)
  qed (use that in simp_all)
  have lo: "clamp_sample v = Num (- 1) \<and> r = - 32768" if "js_less v (Num (- 1))"
  proof (cases v)
    case (Num y)
    with that have "y < - 1" by simp
    then show ?thesis
      unfolding r Num by (simp add: clamp_Num pcm16_Num quantized_def js_trunc_def)
  next
    case NegInf
    then show ?thesis
      unfolding r using mone by (simp add: pcm16_def clamp_sample_def)
  qed (use that in simp_all)
  have "r = sint (ToInt16 (scale_sample (clamp_sample v)))"
    unfolding r by (simp only: pcm16_def)
  moreover have "v = Num 1 \<longrightarrow> r = 32767" using r one by simp
  moreover have "v = Num (- 1) \<longrightarrow> r = - 32768" using r mone by simp
  ultimately show ?thesis
    using hi lo unfolding v_def r_def by blast
qed

theorem clamp_before_quantization_witness:
  "\<exists>bs. audioBufferToWav clipped13 = Inr bs
     \<and> (0::nat) < numberOfChannels clipped13 \<and> (1::nat) < numberOfChannels clipped13
     \<and> (0::nat) < frames_written clipped13 \<and> (1::nat) < frames_written clipped13
     \<and> typed_get (channelData clipped13 ! 0) 0 = Num (3 / 2) \<and> js_less (Num 1) (Num (3 / 2))
     \<and> getInt16 bs 44 = 32767
     \<and> typed_get (channelData clipped13 ! 1) 0 = Num (- 2) \<and> js_less (Num (- 2)) (Num (- 1))
     \<and> getInt16 bs 46 = - 32768
     \<and> typed_get (channelData clipped13 ! 0) 1 = Num 1 \<and> getInt16 bs 48 = 32767
     \<and> typed_get (channelData clipped13 ! 1) 1 = Num (- 1) \<and> getInt16 bs 50 = - 32768"
proof -
  obtain bs where enc: "audioBufferToWav clipped13 = Inr bs"
    using audioBufferToWav_total by blast
  have n: "numberOfChannels clipped13 = 2" by (simp add: clipped13_def numberOfChannels_def)
  have c0: "(0::nat) < numberOfChannels clipped13" and c1: "(1::nat) < numberOfChannels clipped13"
    unfolding n by simp_all
  have f0: "(0::nat) < frames_written clipped13" and f1: "(1::nat) < frames_written clipped13"
    unfolding frames_written_def n by (simp_all add: clipped13_def)
  have v: "typed_get (channelData clipped13 ! 0) 0 = Num (3 / 2)"
    "typed_get (channelData clipped13 ! 1) 0 = Num (- 2)"
    "typed_get (channelData clipped13 ! 0) 1 = Num 1"
    "typed_get (channelData clipped13 ! 1) 1 = Num (- 1)"
    by (simp_all add: clipped13_def typed_get_def)
  have a: "getInt16 bs 44 = 32767"
    using clamp_before_quantization [OF enc c0 f0, unfolded v n, THEN conjunct2, THEN conjunct2,
        THEN conjunct2, THEN conjunct1]
    by simp
  have b: "getInt16 bs 46 = - 32768"
    using clamp_before_quantization [OF enc c1 f0, unfolded v n, THEN conjunct2, THEN conjunct2,
        THEN conjunct2, THEN conjunct2]
    by simp
  have c: "getInt16 bs 48 = 32767"
    using clamp_before_quantization [OF enc c0 f1, unfolded v n, THEN conjunct2, THEN conjunct1]
    by simp
  have d: "getInt16 bs 50 = - 32768"
    using clamp_before_quantization [OF enc c1 f1, unfolded v n, THEN conjunct2, THEN conjunct2,
        THEN conjunct1]
    by simp
  from enc c0 c1 f0 f1 v a b c d show ?thesis by simp
qed

text \<open>
  Claim C8: the six presets and their (pitch, speed) pairs: original \<open>(0, 1.0)\<close>, deep-male
  \<open>(-4, 0.95)\<close>, male \<open>(-2, 1.0)\<close>, female \<open>(4, 1.05)\<close>, high-female \<open>(6, 1.1)\<close>, robotic
  \<open>(-1, 0.9)\<close>; there is no other preset.
\<close>

theorem voicePresets_exact:
  "map fst voicePresets = [''original'', ''deep-male'', ''male'', ''female'', ''high-female'', ''robotic'']
   \<and> map_of voicePresets ''original'' = Some \<lparr>pitch = 0, speed = 1\<rparr>
   \<and> map_of voicePresets ''deep-male'' = Some \<lparr>pitch = - 4, speed = 95 / 100\<rparr>
   \<and> map_of voicePresets ''male'' = Some \<lparr>pitch = - 2, speed = 1\<rparr>
   \<and> map_of voicePresets ''female'' = Some \<lparr>pitch = 4, speed = 105 / 100\<rparr>
   \<and> map_of voicePresets ''high-female'' = Some \<lparr>pitch = 6, speed = 11 / 10\<rparr>
   \<and> map_of voicePresets ''robotic'' = Some \<lparr>pitch = - 1, speed = 9 / 10\<rparr>"
  by (simp add: voicePresets_def)

text \<open>
  Claim C10: the stored value of a finite sample is the clamped sample times 32768 when it is
  negative and times 32767 otherwise, truncated towards zero; that integer lies in
  \<open>[-32768, 32767]\<close>, so the reduction modulo \<open>2 ^ 16\<close> of the 16-bit store leaves it
  unchanged. \<open>0\<close> gives 0, \<open>0.5\<close> gives 16383, \<open>-0.5\<close> gives \<open>-16384\<close>, and
  \<open>-0.3\<close> gives \<open>-9830\<close> (towards zero, not down). NaN is stored as 0.
\<close>

theorem quantization_truncates_without_wrap:
  "scale_sample (clamp_sample (Num x))
     = Num (let s = max (- 1) (min 1 x) in if s < 0 then s * 32768 else s * 32767)
   \<and> sint (pcm16 (Num x))
     = (let s = max (- 1) (min 1 x) in js_trunc (if s < 0 then s * 32768 else s * 32767))
   \<and> - 32768 \<le> (let s = max (- 1) (min 1 x) in js_trunc (if s < 0 then s * 32768 else s * 32767))
   \<and> (let s = max (- 1) (min 1 x) in js_trunc (if s < 0 then s * 32768 else s * 32767)) \<le> 32767
   \<and> js_trunc r = sgn \<lfloor>sgn r\<rfloor> * \<lfloor>\<bar>r\<bar>\<rfloor>
   \<and> sint (pcm16 (Num 0)) = 0
   \<and> sint (pcm16 (Num (1 / 2))) = 16383
   \<and> sint (pcm16 (Num (- (1 / 2)))) = - 16384
   \<and> sint (pcm16 (Num (- (3 / 10)))) = - 9830
   \<and> sint (pcm16 NaN) = 0"
proof (intro conjI)
  show "scale_sample (clamp_sample (Num x))
     = Num (let s = max (- 1) (min 1 x) in if s < 0 then s * 32768 else s * 32767)"
    by (rule scale_clamp_Num)
  show "sint (pcm16 (Num x))
     = (let s = max (- 1) (min 1 x) in js_trunc (if s < 0 then s * 32768 else s * 32767))"
    by (simp only: pcm16_Num quantized_def)
  show "- 32768 \<le> (let s = max (- 1) (min 1 x) in js_trunc (if s < 0 then s * 32768 else s * 32767))"
    using quantized_range [of x] by (simp only: quantized_def)
  show "(let s = max (- 1) (min 1 x) in js_trunc (if s < 0 then s * 32768 else s * 32767)) \<le> 32767"
    using quantized_range [of x] by (simp only: quantized_def)
  show "js_trunc r = sgn \<lfloor>sgn r\<rfloor> * \<lfloor>\<bar>r\<bar>\<rfloor>"
    by (cases "r < 0"; cases "r = 0") (simp_all add: js_trunc_def)
  show "sint (pcm16 (Num 0)) = 0"
    by (simp add: pcm16_Num quantized_def js_trunc_def)
  show "sint (pcm16 (Num (1 / 2))) = 16383"
    by (simp add: pcm16_Num quantized_def js_trunc_def)
  show "sint (pcm16 (Num (- (1 / 2)))) = - 16384"
    by (simp add: pcm16_Num quantized_def js_trunc_def)
  show "sint (pcm16 (Num (- (3 / 10)))) = - 9830"
    by (simp add: pcm16_Num quantized_def js_trunc_def)
  show "sint (pcm16 NaN) = 0"
    by (simp add: pcm16_def clamp_sample_def scale_sample_def)
qed

section \<open>The transform: claims\<close>

text \<open>
  Claim C2 says that the transform throws no exception for any finite pitch shift and speed
  factor, a speed factor of 0 or \<open>-1\<close> included. With a speed factor of 0 the duration is
  infinite, the frame count passed to \<^verbatim>\<open>new OfflineAudioContext\<close> converts to 0, and the
  constructor throws.
\<close>

theorem transformAudio_zero_speed_throws:
  "rounded (js_div (duration mono23) (Num 0)) = PosInf
   \<and> ToUint32 (rounded (js_mul (rounded (js_div (duration mono23) (Num 0))) (Num 8000))) = 0
   \<and> build_graph mono23 8000 0 0 = Inl NotSupportedError
   \<and> transformAudio silent mono23 8000 0 0 = Inl NotSupportedError"
proof -
  have "duration mono23 = Num (6629298651489370 / 2 ^ 61)"
    by (simp add: duration_def mono23_def dbl_small duration_mono23)
  then have d: "rounded (js_div (duration mono23) (Num 0)) = PosInf" by simp
  then have n: "ToUint32 (rounded (js_mul (rounded (js_div (duration mono23) (Num 0))) (Num (real (8000::nat))))) = 0"
    by simp
  from build_graph_zero_length [OF n] have g: "build_graph mono23 8000 0 0 = Inl NotSupportedError" .
  then have "transformAudio silent mono23 8000 0 0 = Inl NotSupportedError"
    by (simp add: transformAudio_def renderedBuffer_def bind_js_def)
  with d n g show ?thesis by simp
qed

text \<open>
  Claim C2, amended: \<^verbatim>\<open>transformAudio\<close> has no failure of its own; what it returns is decided
  by the platform's checks of what it is given. For a decoded buffer with at least one channel:
  when the frame count \<open>ToUint32 (duration / playbackRate * sampleRate)\<close> is 0 the constructor
  of the offline context throws a \<^verbatim>\<open>NotSupportedError\<close>; when it is not 0, the combined
  rate is at most \<open>2 ^ 127\<close> in magnitude (inside the single-precision range of the
  \<^verbatim>\<open>AudioParam\<close>, whatever the rounding of \<^verbatim>\<open>Math.pow\<close> and of the product) and the length of
  the container fits the 32-bit size fields of its header, the call returns a container of
  \<open>frames * channels * 2 + 44\<close> bytes whose header declares that size. The first run below is outside the range of the
  sliders (24 semitones, speed 2); in the second (speed 23 for 23 frames) the length argument
  comes out as \<open>0.9999999999999999\<close>.
\<close>

theorem transformAudio_completes:
  assumes "numberOfChannels b \<noteq> 0" and "sr \<noteq> 0"
  shows "(ToUint32 (rounded (js_mul (rounded (js_div (duration b) (Num s))) (Num (real sr)))) = 0 \<longrightarrow>
            transformAudio signal b sr p s = Inl NotSupportedError)
       \<and> (ToUint32 (rounded (js_mul (rounded (js_div (duration b) (Num s))) (Num (real sr)))) \<noteq> 0 \<longrightarrow>
            js_mul (Num s) (Math_pow2 (js_div (Num p) (Num 12))) = Num r \<longrightarrow>
            \<bar>r\<bar> \<le> 2 ^ 127 \<longrightarrow>
            ToUint32 (rounded (js_mul (rounded (js_div (duration b) (Num s))) (Num (real sr))))
              * numberOfChannels b * 2 + 44 - 8 < 2 ^ 32 \<longrightarrow>
            (\<exists>bs. transformAudio signal b sr p s = Inr bs
               \<and> length bs =
                   ToUint32 (rounded (js_mul (rounded (js_div (duration b) (Num s))) (Num (real sr))))
                     * numberOfChannels b * 2 + 44
               \<and> getUint32 bs 4 = length bs - 8 \<and> getUint32 bs 40 = length bs - 44))"
proof (intro conjI impI)
  let ?len = "ToUint32 (rounded (js_mul (rounded (js_div (duration b) (Num s))) (Num (real sr))))"
  show "transformAudio signal b sr p s = Inl NotSupportedError" if "?len = 0"
    using build_graph_zero_length [OF that]
    by (simp add: transformAudio_def renderedBuffer_def bind_js_def)
  show "\<exists>bs. transformAudio signal b sr p s = Inr bs \<and> length bs = ?len * numberOfChannels b * 2 + 44
          \<and> getUint32 bs 4 = length bs - 8 \<and> getUint32 bs 40 = length bs - 44"
    if nz: "?len \<noteq> 0" and rate: "js_mul (Num s) (Math_pow2 (js_div (Num p) (Num 12))) = Num r"
      and small: "\<bar>r\<bar> \<le> 2 ^ 127"
      and fit: "?len * numberOfChannels b * 2 + 44 - 8 < 2 ^ 32"
  proof -
    have "(2::real) ^ 127 < float_overflow" by (simp add: float_overflow_def)
    with small have fin: "\<bar>r\<bar> < float_overflow" by (rule order_le_less_trans)
    let ?g = "\<lparr>graph_context =
                  \<lparr>oc_numberOfChannels = numberOfChannels b, oc_length = ?len, oc_sampleRate = sr\<rparr>,
                source_buffer = b, source_playbackRate = r,
                filter_type = ''lowpass'', filter_frequency = 3000\<rparr>"
    have g: "build_graph b sr p s = Inr ?g"
      by (rule build_graph_accepted [OF assms nz rate fin])
    let ?rb = "startRendering signal ?g"
    let ?rest = "concat (map (frame_bytes ?rb) [0..<frames_written ?rb])
          @ replicate (2 * numberOfChannels ?rb * (length_frames ?rb - frames_written ?rb)) 0"
    let ?bs = "header_bytes ?rb @ ?rest"
    have bs: "audioBufferToWav ?rb = Inr ?bs"
      by (rule audioBufferToWav_bytes)
    have wl: "wav_length ?rb = ?len * numberOfChannels b * 2 + 44"
      by (simp add: wav_length_def numberOfChannels_startRendering) (simp add: startRendering_def)
    have len: "length ?bs = wav_length ?rb"
      by (rule length_audioBufferToWav [OF bs])
    have "wav_length ?rb - 8 < 4294967296" using fit unfolding wl by simp
    note h = header_sizes [OF this, of ?rest]
    have "transformAudio signal b sr p s = Inr ?bs"
      by (simp add: transformAudio_def renderedBuffer_def g bind_js_def bs)
    moreover have "length ?bs = ?len * numberOfChannels b * 2 + 44"
      unfolding len wl ..
    moreover have "getUint32 ?bs 4 = length ?bs - 8" unfolding len by (rule h(1))
    moreover have "getUint32 ?bs 40 = length ?bs - 44" unfolding len by (rule h(2))
    ultimately show ?thesis by blast
  qed
qed

theorem transformAudio_completes_witness:
  "numberOfChannels mono23 \<noteq> 0 \<and> (8000::nat) \<noteq> 0
   \<and> ToUint32 (rounded (js_mul (rounded (js_div (duration mono23) (Num 2))) (Num 8000))) = 11
   \<and> js_mul (Num 2) (Math_pow2 (js_div (Num 24) (Num 12))) = Num 8
   \<and> \<bar>8::real\<bar> \<le> 2 ^ 127
   \<and> (11::nat) * numberOfChannels mono23 * 2 + 44 - 8 < 2 ^ 32
   \<and> (\<exists>bs. transformAudio silent mono23 8000 24 2 = Inr bs \<and> length bs = 66
          \<and> getUint32 bs 4 = 58 \<and> getUint32 bs 40 = 22)
   \<and> numberOfChannels mono23_44k \<noteq> 0 \<and> (44100::nat) \<noteq> 0
   \<and> ToUint32 (rounded (js_mul (rounded (js_div (duration mono23_44k) (Num 23))) (Num 44100))) = 0
   \<and> transformAudio silent mono23_44k 44100 0 23 = Inl NotSupportedError"
proof -
  have a: "numberOfChannels mono23 = 1"
    by (simp add: mono23_def numberOfChannels_def)
  have b: "ToUint32 (rounded (js_mul (rounded (js_div (duration mono23) (Num 2))) (Num 8000))) = 11"
    unfolding offline_length_mono23_speed2 by (simp add: js_trunc_def)
  have c: "js_mul (Num 2) (Math_pow2 (js_div (Num 24) (Num 12))) = Num 8"
    by (simp add: dbl_small)
  have d: "\<bar>8::real\<bar> \<le> 2 ^ 127"
    by simp
  have a': "numberOfChannels mono23_44k = 1"
    by (simp add: mono23_44k_def numberOfChannels_def)
  have b': "ToUint32 (rounded (js_mul (rounded (js_div (duration mono23_44k) (Num 23))) (Num 44100))) = 0"
    unfolding offline_length_mono23_44k_speed23 by (simp add: js_trunc_def)
  have e: "(11::nat) * numberOfChannels mono23 * 2 + 44 - 8 < 2 ^ 32"
    by (simp add: a)
  from transformAudio_completes [of mono23 8000 2 silent 24 8] a b c d
  have one: "\<exists>bs. transformAudio silent mono23 8000 24 2 = Inr bs \<and> length bs = 66
          \<and> getUint32 bs 4 = 58 \<and> getUint32 bs 40 = 22"
    by auto
  from transformAudio_completes [of mono23_44k 44100 23 silent 0] a' b'
  have two: "transformAudio silent mono23_44k 44100 0 23 = Inl NotSupportedError"
    by simp
  from a b c d e one a' b' two show ?thesis by simp
qed

text \<open>
  Claim C3: for a speed factor in \<open>[0.7, 1.3]\<close> the rendered buffer has
  \<open>round (inputFrameCount / speedFactor)\<close> frames or one fewer, whatever the pitch shift: the
  frame count is the integer part of the length argument, which the three roundings of the code
  keep within \<open>2\<close> to the \<open>-19\<close> of the quotient, and the pitch shift does not enter it. The
  input is a decoded buffer, whose sample rate is the context's, short enough for the count to
  fit the 32-bit length.
\<close>

theorem rendered_length_from_speed:
  assumes ok: "renderedBuffer signal b sr p s = Inr rb"
    and decode: "sampleRate b = sr" and rate: "sr < 2 ^ 32"
    and s: "7 / 10 \<le> s" "s \<le> 13 / 10"
    and fits: "real (length_frames b) / s < 2 ^ 32 - 1"
  shows "length_frames rb
           = ToUint32 (rounded (js_mul (rounded (js_div (duration b) (Num s))) (Num (real sr))))
       \<and> (int (length_frames rb) = round (real (length_frames b) / s)
            \<or> int (length_frames rb) = round (real (length_frames b) / s) - 1)
       \<and> (\<forall>p' rb'. renderedBuffer signal b sr p' s = Inr rb' \<longrightarrow>
              length_frames rb' = length_frames rb)"
proof -
  let ?x = "real (length_frames b) / s"
  let ?L = "rounded (js_mul (rounded (js_div (duration b) (Num s))) (Num (real sr)))"
  have spos: "0 < s" using s by simp
  have x0: "0 \<le> ?x" using spos by simp
  have x1: "?x < 2 ^ 32" using fits by simp
  have len: "length_frames rb' = ToUint32 ?L" if "renderedBuffer signal b sr p' s = Inr rb'" for p' rb'
  proof -
    from that obtain g where g: "build_graph b sr p' s = Inr g" and rb: "rb' = startRendering signal g"
      by (rule renderedBuffer_Inr)
    from build_graph_Inr [OF g] show ?thesis by (simp add: rb startRendering_def)
  qed
  from ok obtain g where g: "build_graph b sr p s = Inr g"
    by (rule renderedBuffer_Inr)
  from build_graph_Inr [OF g] have sr: "sr \<noteq> 0" by simp
  from offline_length_near [OF sr rate decode s x1] obtain d
    where L: "?L = Num d" and d19: "\<bar>d - ?x\<bar> \<le> 1 / 2 ^ 19" by blast
  have "(1::real) / 2 ^ 19 < 1 / 2" by simp
  with d19 have d: "\<bar>d - ?x\<bar> < 1 / 2" by (rule order_le_less_trans)
  have near: "int (length_frames rb) = round ?x \<or> int (length_frames rb) = round ?x - 1"
    unfolding len [OF ok] L by (rule ToUint32_near_round [OF x0 fits d])
  from len [OF ok] near len show ?thesis by simp
qed

theorem rendered_length_from_speed_witness:
  "(\<exists>rb. renderedBuffer silent mono23 8000 (- 1) (3 / 4) = Inr rb
         \<and> length_frames rb = 30
         \<and> round (real (length_frames mono23) / (3 / 4)) = 31
         \<and> (\<exists>rb'. renderedBuffer silent mono23 8000 7 (3 / 4) = Inr rb' \<and> length_frames rb' = 30))
   \<and> sampleRate mono23 = 8000 \<and> (8000::nat) < 2 ^ 32
   \<and> (7 / 10 :: real) \<le> 3 / 4 \<and> (3 / 4 :: real) \<le> 13 / 10
   \<and> real (length_frames mono23) / (3 / 4) < 2 ^ 32 - 1"
proof -
  have ch: "numberOfChannels mono23 \<noteq> 0" by (simp add: mono23_def numberOfChannels_def)
  have dec: "sampleRate mono23 = 8000" by (simp add: mono23_def)
  have n: "length_frames mono23 = 23" by (simp add: mono23_def)
  have r32: "(8000::nat) < 2 ^ 32" by simp
  have fits: "real (length_frames mono23) / (3 / 4) < 2 ^ 32 - 1" by (simp add: n)
  have r1: "(7 / 10 :: real) \<le> 3 / 4" and r2: "(3 / 4 :: real) \<le> 13 / 10" by simp_all
  have nz: "ToUint32 (rounded (js_mul (rounded (js_div (duration mono23) (Num (3 / 4)))) (Num (real (8000::nat))))) \<noteq> 0"
    using offline_length_mono23_slow by simp
  have sz: "(8000::nat) \<noteq> 0" by simp
  have "build_graph mono23 8000 q (3 / 4) \<noteq> Inl e" if "- 12 \<le> q" "q \<le> 12" for q e
    using build_graph_accepted [OF ch sz nz combined_rate_supported [OF that r1 r2]] by simp
  then have ex: "\<exists>rb. renderedBuffer silent mono23 8000 q (3 / 4) = Inr rb" if "- 12 \<le> q" "q \<le> 12" for q
    using that by (cases "build_graph mono23 8000 q (3 / 4)") (simp_all add: renderedBuffer_def bind_js_def)
  from ex [of "- 1"] obtain rb where rb: "renderedBuffer silent mono23 8000 (- 1) (3 / 4) = Inr rb"
    by auto
  from ex [of 7] obtain rb' where rb': "renderedBuffer silent mono23 8000 7 (3 / 4) = Inr rb'"
    by auto
  note t = rendered_length_from_speed [OF rb dec r32 r1 r2 fits]
  from t have l: "length_frames rb = 30"
    using offline_length_mono23_slow by simp
  from t rb' have "length_frames rb' = length_frames rb" by blast
  with l have l': "length_frames rb' = 30" by simp
  have rd: "round (real (length_frames mono23) / (3 / 4)) = 31"
    by (simp add: n round_def)
  from rb l rd rb' l' dec r32 r1 r2 fits show ?thesis by blast
qed

text \<open>
  Claim C5: the pitch ratio is \<open>2\<close> to the power \<open>pitchShift / 12\<close>, and the graph that is
  rendered has one source whose playback rate is \<open>playbackRate * pitchRatio\<close>, feeding one
  low-pass filter at 3000 Hz; nothing else is rendered. The pitch shift is a finite double.
\<close>

theorem playback_rate_is_speed_times_pitch_ratio:
  assumes finite: "\<bar>p\<bar> < 12 * double_overflow"
    and built: "build_graph b sr p s = Inr g"
  shows "Math_pow2 (js_div (Num p) (Num 12)) = dbl (2 powr (p / 12))
       \<and> source_playbackRate g = s * 2 powr (p / 12)
       \<and> source_buffer g = b \<and> filter_type g = ''lowpass'' \<and> filter_frequency g = 3000
       \<and> renderedBuffer signal b sr p s = Inr (startRendering signal g)"
proof -
  note gi = build_graph_Inr [OF built]
  from finite have "\<bar>p / 12\<bar> < double_overflow" by simp
  then have "js_div (Num p) (Num 12) = Num (p / 12)"
    by (simp add: dbl_Num)
  then have pr: "Math_pow2 (js_div (Num p) (Num 12)) = dbl (2 powr (p / 12))"
    by simp
  from gi have "js_mul (Num s) (Math_pow2 (js_div (Num p) (Num 12))) = Num (source_playbackRate g)"
    by simp
  from pow2_finite [OF finite this] have rate: "source_playbackRate g = s * 2 powr (p / 12)" .
  have "renderedBuffer signal b sr p s = Inr (startRendering signal g)"
    by (simp add: renderedBuffer_def built bind_js_def)
  with pr rate gi show ?thesis by simp
qed

theorem playback_rate_is_speed_times_pitch_ratio_witness:
  "\<bar>12 :: real\<bar> < 12 * double_overflow
   \<and> build_graph mono23 8000 12 1 =
       Inr \<lparr>graph_context = \<lparr>oc_numberOfChannels = 1, oc_length = 23, oc_sampleRate = 8000\<rparr>,
            source_buffer = mono23, source_playbackRate = 2,
            filter_type = ''lowpass'', filter_frequency = 3000\<rparr>
   \<and> source_playbackRate
         \<lparr>graph_context = \<lparr>oc_numberOfChannels = 1, oc_length = 23, oc_sampleRate = 8000\<rparr>,
          source_buffer = mono23, source_playbackRate = 2,
          filter_type = ''lowpass'', filter_frequency = 3000\<rparr> = 1 * 2 powr (12 / 12)"
proof -
  let ?L = "rounded (js_mul (rounded (js_div (duration mono23) (Num 1))) (Num (real (8000::nat))))"
  have f: "\<bar>12 :: real\<bar> < 12 * double_overflow"
    using double_overflow_big by simp
  have c: "numberOfChannels mono23 = 1" by (simp add: mono23_def numberOfChannels_def)
  have cz: "numberOfChannels mono23 \<noteq> 0" unfolding c by simp
  have sz: "(8000::nat) \<noteq> 0" by simp
  have L: "?L = Num 23" using offline_length_mono23_speed1 by simp
  have n: "ToUint32 ?L = 23" unfolding L by (simp add: js_trunc_def)
  have nz: "ToUint32 ?L \<noteq> 0" unfolding n by simp
  have r: "js_mul (Num 1) (Math_pow2 (js_div (Num 12) (Num 12))) = Num 2"
    by (simp add: dbl_small)
  have fl: "\<bar>2::real\<bar> < float_overflow" using float_overflow_big by simp
  have g: "build_graph mono23 8000 12 1 =
       Inr \<lparr>graph_context = \<lparr>oc_numberOfChannels = 1, oc_length = 23, oc_sampleRate = 8000\<rparr>,
            source_buffer = mono23, source_playbackRate = 2,
            filter_type = ''lowpass'', filter_frequency = 3000\<rparr>"
    using build_graph_accepted [OF cz sz nz r fl] unfolding n c .
  from playback_rate_is_speed_times_pitch_ratio [OF f g] f g show ?thesis by blast
qed

text \<open>
  Claim C9: the rendered buffer has the channel count of the decoded input and the sample rate
  of the decode (the context's), and the container's header declares both, at offsets 22
  and 24.
\<close>

theorem channels_and_sample_rate_preserved:
  assumes ok: "renderedBuffer signal b sr p s = Inr rb"
    and decode: "sampleRate b = sr"
    and ch: "numberOfChannels b < 2 ^ 16" and rate: "sampleRate b < 2 ^ 32"
  shows "numberOfChannels rb = numberOfChannels b \<and> sampleRate rb = sampleRate b
       \<and> (\<exists>bs. transformAudio signal b sr p s = Inr bs
              \<and> getUint16 bs 22 = numberOfChannels b \<and> getUint32 bs 24 = sampleRate b)"
proof -
  from ok obtain g where g: "build_graph b sr p s = Inr g" and rb: "rb = startRendering signal g"
    by (rule renderedBuffer_Inr)
  note gi = build_graph_Inr [OF g]
  have c: "numberOfChannels rb = numberOfChannels b"
    using gi by (simp add: rb numberOfChannels_startRendering)
  have r: "sampleRate rb = sampleRate b"
    using gi decode by (simp add: rb startRendering_def)
  let ?rest = "concat (map (frame_bytes rb) [0..<frames_written rb])
          @ replicate (2 * numberOfChannels rb * (length_frames rb - frames_written rb)) 0"
  have enc: "audioBufferToWav rb = Inr (header_bytes rb @ ?rest)"
    by (rule audioBufferToWav_bytes)
  have t: "transformAudio signal b sr p s = Inr (header_bytes rb @ ?rest)"
    by (simp add: transformAudio_def ok bind_js_def enc)
  have f22: "getUint16 (header_bytes rb @ ?rest) 22 = numberOfChannels b"
    using header_channels [of rb ?rest] ch c by simp
  have f24: "getUint32 (header_bytes rb @ ?rest) 24 = sampleRate b"
    using header_rate [of rb ?rest] rate r by simp
  from c r t f22 f24 show ?thesis by blast
qed

theorem channels_and_sample_rate_preserved_witness:
  "(\<exists>rb. renderedBuffer silent stereo12 44100 4 (105 / 100) = Inr rb
         \<and> numberOfChannels rb = 2 \<and> sampleRate rb = 44100)
   \<and> sampleRate stereo12 = 44100
   \<and> numberOfChannels stereo12 < 2 ^ 16 \<and> sampleRate stereo12 < 2 ^ 32
   \<and> (\<exists>bs. transformAudio silent stereo12 44100 4 (105 / 100) = Inr bs
          \<and> getUint16 bs 22 = 2 \<and> getUint32 bs 24 = 44100)"
proof -
  have ch: "numberOfChannels stereo12 = 2" by (simp add: stereo12_def numberOfChannels_def)
  have dec: "sampleRate stereo12 = 44100" by (simp add: stereo12_def)
  have n: "length_frames stereo12 = 12" by (simp add: stereo12_def)
  have "\<exists>n. build_graph stereo12 44100 4 (105 / 100) =
           Inr \<lparr>graph_context =
                  \<lparr>oc_numberOfChannels = numberOfChannels stereo12, oc_length = n,
                   oc_sampleRate = 44100\<rparr>,
                source_buffer = stereo12, source_playbackRate = 105 / 100 * 2 powr (4 / 12),
                filter_type = ''lowpass'', filter_frequency = 3000\<rparr>
           \<and> n \<noteq> 0 \<and> \<bar>real n - real (length_frames stereo12) / (105 / 100)\<bar> < 1 + 1 / 2 ^ 19"
    by (rule build_graph_supported [OF _ _ _ dec]) (simp_all add: n ch)
  then obtain rb where rb: "renderedBuffer silent stereo12 44100 4 (105 / 100) = Inr rb"
    by (auto simp: renderedBuffer_def bind_js_def)
  have c16: "numberOfChannels stereo12 < 2 ^ 16" by (simp add: ch)
  have r32: "sampleRate stereo12 < 2 ^ 32" by (simp add: dec)
  from channels_and_sample_rate_preserved [OF rb dec c16 r32]
  have "numberOfChannels rb = 2 \<and> sampleRate rb = 44100
       \<and> (\<exists>bs. transformAudio silent stereo12 44100 4 (105 / 100) = Inr bs
              \<and> getUint16 bs 22 = 2 \<and> getUint32 bs 24 = 44100)"
    by (simp add: ch dec)
  with rb dec c16 r32 show ?thesis by blast
qed

text \<open>
  Claim C6 is about the sample values of the frames that follow the end of the source in the
  rendered buffer. \<^verbatim>\<open>transformAudio\<close> connects the source to the low-pass filter and the filter
  to the destination and awaits \<^verbatim>\<open>startRendering\<close>; it writes no frame of the rendered buffer
  itself. The values are computed by the platform's audio engine, in single precision, and are
  the parameter \<open>signal\<close> of this embedding: no statement about them is made here.
\<close>

end
